theory Spec2Isabelle
  imports Complex_Main "HOL-Library.Log_Nat"
begin

section \<open>Conversation history\<close>

text \<open>
  The client of \<^verbatim>\<open>packages/core/src/core/client.ts\<close> works on a list of
  \<^verbatim>\<open>Content\<close> entries. An entry has an optional role and an optional list of parts;
  a part carries text, a function call or a function response, each optional. The
  payload of a call or response is kept as its name only: the client only ever asks
  whether the key is there.
\<close>

record part =
  text_part :: "string option"
  functionCall :: "string option"
  functionResponse :: "string option"

record content =
  role :: "string option"
  parts :: "part list option"

datatype error = JsError string

text \<open>
  A JavaScript number as far as \<^verbatim>\<open>findCompressSplitPoint\<close> can tell numbers
  apart: not-a-number, the two infinities, or a finite value. \<open>Fin x\<close> is a number
  of the language when \<open>x\<close> is a value of the binary64 format (\<open>isDouble\<close> below);
  the two zeros are one value, which no comparison here tells apart.
\<close>

datatype number = NaN | NegInf | PosInf | Fin real

text \<open>
  Rounding to binary64, to nearest with ties to even. \<open>ilog2 x\<close> is the exponent of
  a positive \<open>x\<close>, the integer \<open>e\<close> with \<open>2 powi e \<le> x < 2 powi (e + 1)\<close>. Below
  \<open>2 powi (- 1022)\<close> the spacing of the format stays that of the smallest normal
  exponent; a rounded magnitude of \<open>2 powi 1024\<close> or more is an infinity.
\<close>

definition ilog2 :: "real \<Rightarrow> int" where
  "ilog2 x = (if 1 \<le> x then bitlen \<lfloor>x\<rfloor> - 1 else - bitlen (\<lceil>1 / x\<rceil> - 1))"

definition roundEven :: "real \<Rightarrow> int" where
  "roundEven r =
     (let n = \<lfloor>r\<rfloor>; d = r - of_int n
      in if d < 1 / 2 then n else if 1 / 2 < d then n + 1 else if even n then n else n + 1)"

definition roundDouble :: "real \<Rightarrow> number" where
  "roundDouble x =
     (if x = 0 then Fin 0
      else
        let e = max (ilog2 \<bar>x\<bar>) (- 1022);
            q = 2 powi (e - 52);
            y = of_int (roundEven (\<bar>x\<bar> / q)) * q
        in if 2 powi 1024 \<le> y then (if 0 < x then PosInf else NegInf)
           else Fin (if 0 < x then y else - y))"

definition isDouble :: "number \<Rightarrow> bool" where
  "isDouble v = (case v of Fin x \<Rightarrow> roundDouble x = Fin x | _ \<Rightarrow> True)"

fun num_le :: "number \<Rightarrow> number \<Rightarrow> bool" where
  "num_le NaN y = False"
| "num_le x NaN = False"
| "num_le NegInf y = True"
| "num_le x PosInf = True"
| "num_le PosInf y = False"
| "num_le x NegInf = False"
| "num_le (Fin a) (Fin b) = (a \<le> b)"

definition num_ge :: "number \<Rightarrow> number \<Rightarrow> bool" where
  "num_ge x y = num_le y x"

text \<open>
  The product and the difference of two numbers: the exact result, rounded.
\<close>

fun num_times :: "number \<Rightarrow> number \<Rightarrow> number" where
  "num_times NaN y = NaN"
| "num_times x NaN = NaN"
| "num_times (Fin a) (Fin b) = roundDouble (a * b)"
| "num_times (Fin a) PosInf = (if a = 0 then NaN else if 0 < a then PosInf else NegInf)"
| "num_times (Fin a) NegInf = (if a = 0 then NaN else if 0 < a then NegInf else PosInf)"
| "num_times PosInf (Fin b) = (if b = 0 then NaN else if 0 < b then PosInf else NegInf)"
| "num_times NegInf (Fin b) = (if b = 0 then NaN else if 0 < b then NegInf else PosInf)"
| "num_times PosInf PosInf = PosInf"
| "num_times PosInf NegInf = NegInf"
| "num_times NegInf PosInf = NegInf"
| "num_times NegInf NegInf = PosInf"

fun num_minus :: "number \<Rightarrow> number \<Rightarrow> number" where
  "num_minus NaN y = NaN"
| "num_minus x NaN = NaN"
| "num_minus (Fin a) (Fin b) = roundDouble (a - b)"
| "num_minus (Fin a) PosInf = NegInf"
| "num_minus (Fin a) NegInf = PosInf"
| "num_minus PosInf (Fin b) = PosInf"
| "num_minus NegInf (Fin b) = NegInf"
| "num_minus PosInf PosInf = NaN"
| "num_minus PosInf NegInf = PosInf"
| "num_minus NegInf PosInf = NegInf"
| "num_minus NegInf NegInf = NaN"

section \<open>The compression split point\<close>

text \<open>
  \<^verbatim>\<open>content.parts?.some((part) => !!part.functionResponse)\<close> and
  \<^verbatim>\<open>lastContent?.parts?.some((part) => part.functionCall)\<close>: an entry without a
  parts list has neither.
\<close>

definition hasFunctionResponse :: "content \<Rightarrow> bool" where
  "hasFunctionResponse c =
     (case parts c of None \<Rightarrow> False
      | Some ps \<Rightarrow> list_ex (\<lambda>p. functionResponse p \<noteq> None) ps)"

definition hasFunctionCall :: "content \<Rightarrow> bool" where
  "hasFunctionCall c =
     (case parts c of None \<Rightarrow> False
      | Some ps \<Rightarrow> list_ex (\<lambda>p. functionCall p \<noteq> None) ps)"

text \<open>The test that guards a split point inside the loop.\<close>

definition isSplitCandidate :: "content \<Rightarrow> bool" where
  "isSplitCandidate c = (role c = Some ''user'' \<and> \<not> hasFunctionResponse c)"

datatype loop_exit = Return nat | Fallthrough nat

text \<open>
  The \<^verbatim>\<open>for\<close> loop, over the entries from index \<open>i\<close> on, each paired with its
  character count. \<open>Return i\<close> is the \<^verbatim>\<open>return i\<close> inside the loop,
  \<open>Fallthrough lastSplitPoint\<close> is leaving the loop at its end.
\<close>

fun splitLoop :: "number \<Rightarrow> (content \<times> nat) list \<Rightarrow> nat \<Rightarrow> nat \<Rightarrow> nat \<Rightarrow> loop_exit" where
  "splitLoop targetCharCount [] i lastSplitPoint cumulativeCharCount =
     Fallthrough lastSplitPoint"
| "splitLoop targetCharCount ((c, charCount) # rest) i lastSplitPoint cumulativeCharCount =
     (if isSplitCandidate c then
        (if num_ge (Fin (real cumulativeCharCount)) targetCharCount then Return i
         else splitLoop targetCharCount rest (i + 1) i (cumulativeCharCount + charCount))
      else splitLoop targetCharCount rest (i + 1) lastSplitPoint
             (cumulativeCharCount + charCount))"

text \<open>
  \<open>jsonLength\<close> stands for \<^verbatim>\<open>JSON.stringify(content).length\<close>.
  \<^verbatim>\<open>contents[contents.length - 1]\<close> is undefined on the empty list, and then the
  test on \<^verbatim>\<open>lastContent?.role\<close> fails.
\<close>

definition findCompressSplitPoint ::
  "(content \<Rightarrow> nat) \<Rightarrow> content list \<Rightarrow> number \<Rightarrow> error + nat" where
  "findCompressSplitPoint jsonLength contents fraction =
     (if num_le fraction (Fin 0) \<or> num_ge fraction (Fin 1)
      then Inl (JsError ''Fraction must be between 0 and 1'')
      else
        let charCounts = map jsonLength contents;
            totalCharCount = foldl (+) 0 charCounts;
            targetCharCount = num_times (Fin (real totalCharCount)) fraction
        in case splitLoop targetCharCount (zip contents charCounts) 0 0 0 of
             Return i \<Rightarrow> Inr i
           | Fallthrough lastSplitPoint \<Rightarrow>
               (if contents \<noteq> [] \<and> role (last contents) = Some ''model''
                   \<and> \<not> hasFunctionCall (last contents)
                then Inr (length contents)
                else Inr lastSplitPoint))"

text \<open>
  The split point as the specification words it, for a given target weight: the first
  index whose entry is a user entry without a function response and before which the
  summed weight has reached the target; failing that the full length when the final
  entry is a model entry without a function call; failing that the last user entry
  without a function response, or 0 when there is none.
\<close>

definition weightBefore :: "(content \<Rightarrow> nat) \<Rightarrow> content list \<Rightarrow> nat \<Rightarrow> nat" where
  "weightBefore jsonLength contents i = sum_list (map jsonLength (take i contents))"

definition totalWeight :: "(content \<Rightarrow> nat) \<Rightarrow> content list \<Rightarrow> nat" where
  "totalWeight jsonLength contents = sum_list (map jsonLength contents)"

definition reachesTarget :: "(content \<Rightarrow> nat) \<Rightarrow> content list \<Rightarrow> number \<Rightarrow> nat \<Rightarrow> bool" where
  "reachesTarget jsonLength contents target i =
     (isSplitCandidate (contents ! i) \<and>
      num_le target (Fin (real (weightBefore jsonLength contents i))))"

definition lastCandidate :: "content list \<Rightarrow> nat" where
  "lastCandidate contents =
     (case filter (\<lambda>i. isSplitCandidate (contents ! i)) [0..<length contents] of
        [] \<Rightarrow> 0
      | j # js \<Rightarrow> last (j # js))"

definition specSplitPoint :: "(content \<Rightarrow> nat) \<Rightarrow> content list \<Rightarrow> number \<Rightarrow> nat" where
  "specSplitPoint jsonLength contents target =
     (case find (reachesTarget jsonLength contents target) [0..<length contents] of
        Some i \<Rightarrow> i
      | None \<Rightarrow>
          (if contents \<noteq> [] \<and> role (last contents) = Some ''model''
              \<and> \<not> hasFunctionCall (last contents)
           then length contents
           else lastCandidate contents))"

text \<open>
  The two readings of \<open>fraction \<times> total weight\<close>: the product the program computes,
  which is a binary64 value, and the product of the two as real numbers.
\<close>

definition doubleTarget :: "(content \<Rightarrow> nat) \<Rightarrow> content list \<Rightarrow> real \<Rightarrow> number" where
  "doubleTarget jsonLength contents f = roundDouble (real (totalWeight jsonLength contents) * f)"

definition exactTarget :: "(content \<Rightarrow> nat) \<Rightarrow> content list \<Rightarrow> real \<Rightarrow> number" where
  "exactTarget jsonLength contents f = Fin (real (totalWeight jsonLength contents) * f)"

text \<open>
  The scan as a search: \<open>reachedAt\<close> is the test under which the loop returns at
  offset \<open>k\<close> of the entries it was given, having started with count \<open>c\<close>.
\<close>

definition reachedAt :: "number \<Rightarrow> (content \<times> nat) list \<Rightarrow> nat \<Rightarrow> nat \<Rightarrow> bool" where
  "reachedAt t zs c k =
     (isSplitCandidate (fst (zs ! k)) \<and>
      num_ge (Fin (real (c + sum_list (map snd (take k zs))))) t)"

section \<open>Editor context\<close>

text \<open>
  \<^verbatim>\<open>IdeContext\<close> and \<^verbatim>\<open>File\<close> of \<^verbatim>\<open>ide/types.ts\<close>, as far as the client
  reads them. \<open>isActive\<close> is an optional boolean read for its truth value only;
  \<open>openFiles\<close> is \<open>None\<close> when \<^verbatim>\<open>workspaceState\<close> or its \<^verbatim>\<open>openFiles\<close> is absent.
\<close>

record cursor =
  line :: int
  character :: int

record ideFile =
  path :: string
  isActive :: bool
  cursor :: "cursor option"
  selectedText :: "string option"

record ideContext =
  openFiles :: "ideFile list option"

text \<open>The objects handed to \<^verbatim>\<open>JSON.stringify\<close>: the full context and the delta.\<close>

record activeFileData =
  activePath :: string
  activeCursor :: "cursor option"
  activeSelectedText :: "string option"

record contextData =
  activeFile :: "activeFileData option"
  otherOpenFiles :: "string list option"

datatype activeFileChange = ActiveFile activeFileData | NoActiveFile string

record changes =
  filesOpened :: "string list option"
  filesClosed :: "string list option"
  activeFileChanged :: "activeFileChange option"
  cursorMoved :: "(string \<times> cursor) option"
  selectionChanged :: "(string \<times> string) option"

text \<open>\<^verbatim>\<open>x || undefined\<close> and \<^verbatim>\<open>x || ''\<close> on an optional string.\<close>

definition orUndefined :: "string option \<Rightarrow> string option" where
  "orUndefined x = (case x of None \<Rightarrow> None | Some t \<Rightarrow> if t = [] then None else Some t)"

definition orEmpty :: "string option \<Rightarrow> string" where
  "orEmpty x = (case x of None \<Rightarrow> [] | Some t \<Rightarrow> t)"

definition filesOf :: "ideContext \<Rightarrow> ideFile list" where
  "filesOf ctx = (case openFiles ctx of None \<Rightarrow> [] | Some fs \<Rightarrow> fs)"

text \<open>
  The keys of \<^verbatim>\<open>new Map(files.map((f) => [f.path, f]))\<close> in iteration order: a path
  keeps the place of its first insertion.
\<close>

definition mapKeys :: "ideFile list \<Rightarrow> string list" where
  "mapKeys fs = foldl (\<lambda>ks f. if path f \<in> set ks then ks else ks @ [path f]) [] fs"

definition activeFileDataOf :: "ideFile \<Rightarrow> activeFileData" where
  "activeFileDataOf f =
     \<lparr>activePath = path f, activeCursor = cursor f,
      activeSelectedText = orUndefined (selectedText f)\<rparr>"

definition fullContextData :: "ideContext \<Rightarrow> contextData" where
  "fullContextData currentIdeContext =
     (let files = filesOf currentIdeContext;
          otherFiles = map path (filter (\<lambda>f. \<not> isActive f) files)
      in \<lparr>activeFile = map_option activeFileDataOf (find isActive files),
          otherOpenFiles = (if otherFiles \<noteq> [] then Some otherFiles else None)\<rparr>)"

text \<open>
  The \<^verbatim>\<open>changes\<close> object of the delta branch, filled key by key in the order of
  the source.
\<close>

definition emptyChanges :: changes where
  "emptyChanges =
     \<lparr>filesOpened = None, filesClosed = None, activeFileChanged = None,
      cursorMoved = None, selectionChanged = None\<rparr>"

definition cursorDiffers :: "cursor option \<Rightarrow> cursor \<Rightarrow> bool" where
  "cursorDiffers lastCursor currentCursor =
     (case lastCursor of
        None \<Rightarrow> True
      | Some lc \<Rightarrow> line lc \<noteq> line currentCursor \<or> character lc \<noteq> character currentCursor)"

definition activeFileChanges :: "ideFile option \<Rightarrow> ideFile option \<Rightarrow> changes \<Rightarrow> changes" where
  "activeFileChanges lastActiveFile currentActiveFile ch =
     (case currentActiveFile of
        Some c \<Rightarrow>
          (if lastActiveFile = None \<or> map_option path lastActiveFile \<noteq> Some (path c)
           then ch\<lparr>activeFileChanged := Some (ActiveFile (activeFileDataOf c))\<rparr>
           else
             let lastCursor = Option.bind lastActiveFile cursor;
                 ch1 = (case cursor c of
                          None \<Rightarrow> ch
                        | Some currentCursor \<Rightarrow>
                            if cursorDiffers lastCursor currentCursor
                            then ch\<lparr>cursorMoved := Some (path c, currentCursor)\<rparr>
                            else ch);
                 lastSelectedText = orEmpty (Option.bind lastActiveFile selectedText);
                 currentSelectedText = orEmpty (selectedText c)
             in if lastSelectedText \<noteq> currentSelectedText
                then ch1\<lparr>selectionChanged := Some (path c, currentSelectedText)\<rparr>
                else ch1)
      | None \<Rightarrow>
          (case lastActiveFile of
             Some l \<Rightarrow> ch\<lparr>activeFileChanged := Some (NoActiveFile (path l))\<rparr>
           | None \<Rightarrow> ch))"

definition computeChanges :: "ideContext \<Rightarrow> ideContext \<Rightarrow> changes" where
  "computeChanges lastSentIdeContext currentIdeContext =
     (let lastFiles = mapKeys (filesOf lastSentIdeContext);
          currentFiles = mapKeys (filesOf currentIdeContext);
          openedFiles = filter (\<lambda>p. p \<notin> set lastFiles) currentFiles;
          ch1 = (if openedFiles \<noteq> [] then emptyChanges\<lparr>filesOpened := Some openedFiles\<rparr>
                 else emptyChanges);
          closedFiles = filter (\<lambda>p. p \<notin> set currentFiles) lastFiles;
          ch2 = (if closedFiles \<noteq> [] then ch1\<lparr>filesClosed := Some closedFiles\<rparr> else ch1);
          lastActiveFile = find isActive (filesOf lastSentIdeContext);
          currentActiveFile = find isActive (filesOf currentIdeContext)
      in activeFileChanges lastActiveFile currentActiveFile ch2)"

definition noChanges :: "changes \<Rightarrow> bool" where
  "noChanges ch =
     (filesOpened ch = None \<and> filesClosed ch = None \<and> activeFileChanged ch = None
      \<and> cursorMoved ch = None \<and> selectionChanged ch = None)"

section \<open>The client and its collaborators\<close>

datatype compressionStatus =
  COMPRESSED | COMPRESSION_FAILED_INFLATED_TOKEN_COUNT | NOOP

record chatCompressionInfo =
  originalTokenCount :: int
  newTokenCount :: int
  compressionStatus :: compressionStatus

text \<open>
  The events of \<^verbatim>\<open>ServerGeminiStreamEvent\<close> the client emits or tests for, and the
  pass-through vocabulary of the turn (content, tool call requests, finish).
\<close>

datatype event =
  MaxSessionTurns
| ContextWindowWillOverflow int int
| ChatCompressed chatCompressionInfo
| LoopDetected
| InvalidStream
| Error string
| Content string
| ToolCallRequest string
| Finished

fun isErrorEvent :: "event \<Rightarrow> bool" where
  "isErrorEvent (Error m) = True"
| "isErrorEvent e = False"

text \<open>
  What the client does to its collaborators, in order: model calls, router calls,
  appends to the history and telemetry are recorded in the client's \<open>log\<close>.
\<close>

datatype action =
  LoopDetectorReset string
| SummaryCall string "content list"
| LogChatCompression int int
| AddHistory content
| RouterCall "content list" "part list"
| ModelCall string "part list"
| ControllerAbort
| LogContentRetryFailure nat string string
| NextSpeakerCall string

record chat =
  history :: "content list"
  systemInstruction :: string

text \<open>
  The fields of \<^verbatim>\<open>GeminiClient\<close>, with the token counter of
  \<^verbatim>\<open>uiTelemetryService\<close> and the log beside them.
\<close>

record client =
  chat :: "chat option"
  sessionTurnCount :: nat
  lastPromptId :: string
  currentSequenceModel :: "string option"
  lastSentIdeContext :: "ideContext option"
  forceFullIdeContext :: bool
  lastKnownChatUserMemory :: "string option"
  hasFailedCompressionAttempt :: bool
  lastPromptTokenCount :: int
  log :: "action list"

text \<open>
  Everything the client reads from outside \<^verbatim>\<open>client.ts\<close> during one invocation:
  the getters of \<^verbatim>\<open>Config\<close>, the constants of \<^verbatim>\<open>config/models.ts\<close>, the imported
  functions, \<^verbatim>\<open>JSON.stringify\<close> (as lengths and as strings), and the answers of the
  services (summary generation, loop detector, router, turn, next-speaker check, abort
  signal). \<open>curated\<close> is \<^verbatim>\<open>GeminiChat.getHistory(true)\<close>; \<open>turnEvents\<close> is the stream of
  \<^verbatim>\<open>Turn.run\<close>, \<open>turnHistory\<close> the chat history once that many of its events were
  pulled; \<open>addAndCheck\<close> answers for the events fed to the loop detector so far.
\<close>

record host =
  getModel :: string
  isInFallbackMode :: bool
  getMaxSessionTurns :: int
  getIdeMode :: bool
  getContinueOnFailedApiCall :: bool
  getQuotaErrorOccurred :: bool
  getSkipNextSpeakerCheck :: bool
  getUserMemory :: string
  contextPercentageThreshold :: "real option"
  DEFAULT_GEMINI_MODEL_AUTO :: string
  DEFAULT_GEMINI_MODEL :: string
  getEffectiveModel :: "bool \<Rightarrow> string \<Rightarrow> string"
  tokenLimit :: "string \<Rightarrow> int"
  getCoreSystemPrompt :: "string \<Rightarrow> error + string"
  allSetupText :: string
  contentLength :: "content \<Rightarrow> nat"
  requestLength :: "part list \<Rightarrow> nat"
  stringifyContext :: "contextData \<Rightarrow> string"
  stringifyDelta :: "changes \<Rightarrow> string"
  curated :: "content list \<Rightarrow> content list"
  generateSummary :: "string \<Rightarrow> content list \<Rightarrow> error + string option"
  ideContextStore :: "ideContext option"
  turnStarted :: bool
  route :: "content list \<Rightarrow> part list \<Rightarrow> string"
  turnEvents :: "string \<Rightarrow> part list \<Rightarrow> content list \<Rightarrow> event list"
  turnHistory :: "string \<Rightarrow> part list \<Rightarrow> content list \<Rightarrow> nat \<Rightarrow> content list"
  pendingToolCalls :: "string \<Rightarrow> part list \<Rightarrow> content list \<Rightarrow> nat"
  addAndCheck :: "event list \<Rightarrow> bool"
  aborted :: bool
  nextSpeaker :: "content list \<Rightarrow> string option"

definition MAX_TURNS :: int where
  "MAX_TURNS = 100"

definition COMPRESSION_TOKEN_THRESHOLD :: real where
  "COMPRESSION_TOKEN_THRESHOLD = 7 / 10"

text \<open>
  \<^verbatim>\<open>COMPRESSION_PRESERVE_THRESHOLD = 0.3\<close>: the literal is the binary64 value nearest
  to three tenths.
\<close>

definition COMPRESSION_PRESERVE_THRESHOLD :: number where
  "COMPRESSION_PRESERVE_THRESHOLD = roundDouble (3 / 10)"

definition textPart :: "string \<Rightarrow> part" where
  "textPart t = \<lparr>text_part = Some t, functionCall = None, functionResponse = None\<rparr>"

definition textContent :: "string \<Rightarrow> string \<Rightarrow> content" where
  "textContent r t = \<lparr>role = Some r, parts = Some [textPart t]\<rparr>"

definition record_action :: "action \<Rightarrow> client \<Rightarrow> client" where
  "record_action a s = s\<lparr>log := log s @ [a]\<rparr>"

text \<open>The truth value of \<^verbatim>\<open>this.currentSequenceModel\<close>: null and the empty string are false.\<close>

definition truthy :: "string option \<Rightarrow> bool" where
  "truthy x = (case x of None \<Rightarrow> False | Some t \<Rightarrow> t \<noteq> [])"

definition getEffectiveModelForCurrentTurn :: "host \<Rightarrow> client \<Rightarrow> string" where
  "getEffectiveModelForCurrentTurn h s =
     (if truthy (currentSequenceModel s) then the (currentSequenceModel s)
      else
        let configModel = getModel h;
            model = (if configModel = DEFAULT_GEMINI_MODEL_AUTO h then DEFAULT_GEMINI_MODEL h
                     else configModel)
        in getEffectiveModel h (isInFallbackMode h) model)"

text \<open>
  \<^verbatim>\<open>startChat\<close>: the two flags are set first; the user memory is stored before the
  system prompt is computed, and a failure there is rethrown.
\<close>

definition startChat :: "host \<Rightarrow> client \<Rightarrow> content list \<Rightarrow> (error + chat) \<times> client" where
  "startChat h s extraHistory =
     (let s1 = s\<lparr>forceFullIdeContext := True, hasFailedCompressionAttempt := False\<rparr>;
          history0 = textContent ''user'' (allSetupText h) # extraHistory;
          userMemory = getUserMemory h;
          s2 = s1\<lparr>lastKnownChatUserMemory := Some userMemory\<rparr>
      in case getCoreSystemPrompt h userMemory of
           Inl e \<Rightarrow> (Inl (JsError ''Failed to initialize chat''), s2)
         | Inr instruction \<Rightarrow>
             (Inr \<lparr>history = history0, systemInstruction = instruction\<rparr>, s2))"

section \<open>Compression\<close>

definition noopInfo :: "int \<Rightarrow> chatCompressionInfo" where
  "noopInfo n = \<lparr>originalTokenCount = n, newTokenCount = n, compressionStatus = NOOP\<rparr>"

definition estimateTokens :: "host \<Rightarrow> content list \<Rightarrow> int" where
  "estimateTokens h cs = int (foldl (\<lambda>total c. total + contentLength h c) 0 cs div 4)"

text \<open>The part of \<^verbatim>\<open>tryCompressChat\<close> from the summary request on.\<close>

definition rebuildChat ::
  "host \<Rightarrow> client \<Rightarrow> string \<Rightarrow> bool \<Rightarrow> string \<Rightarrow> int \<Rightarrow> content list \<Rightarrow> content list
     \<Rightarrow> (error + chatCompressionInfo) \<times> client" where
  "rebuildChat h s prompt_id force model originalCount historyToCompress historyToKeep =
     (let request = historyToCompress @
            [textContent ''user''
               ''First, reason in your scratchpad. Then, generate the <state_snapshot>.''];
          s1 = record_action (SummaryCall model request) s
      in case generateSummary h model request of
           Inl e \<Rightarrow> (Inl e, s1)
         | Inr summaryResponse \<Rightarrow>
             let summary = (case summaryResponse of None \<Rightarrow> [] | Some t \<Rightarrow> t) in
             (case startChat h s1
                     ([textContent ''user'' summary,
                       textContent ''model'' ''Got it. Thanks for the additional context!'']
                      @ historyToKeep) of
                (Inl e, s2) \<Rightarrow> (Inl e, s2)
              | (Inr newChat, s2) \<Rightarrow>
                  let s3 = s2\<lparr>forceFullIdeContext := True\<rparr>;
                      newCount = estimateTokens h (history newChat);
                      s4 = record_action (LogChatCompression originalCount newCount) s3
                  in if originalCount < newCount
                     then (Inr \<lparr>originalTokenCount = originalCount, newTokenCount = newCount,
                                compressionStatus = COMPRESSION_FAILED_INFLATED_TOKEN_COUNT\<rparr>,
                           s4\<lparr>hasFailedCompressionAttempt := (\<not> force \<and> True)\<rparr>)
                     else (Inr \<lparr>originalTokenCount = originalCount, newTokenCount = newCount,
                                compressionStatus = COMPRESSED\<rparr>,
                           s4\<lparr>chat := Some newChat, lastPromptTokenCount := newCount\<rparr>)))"

definition tryCompressChat ::
  "host \<Rightarrow> client \<Rightarrow> string \<Rightarrow> bool \<Rightarrow> (error + chatCompressionInfo) \<times> client" where
  "tryCompressChat h s prompt_id force =
     (let model = getEffectiveModelForCurrentTurn h s in
      case chat s of
        None \<Rightarrow> (Inl (JsError ''Chat not initialized''), s)
      | Some ch \<Rightarrow>
          let curatedHistory = curated h (history ch) in
          if curatedHistory = [] \<or> (hasFailedCompressionAttempt s \<and> \<not> force)
          then (Inr \<lparr>originalTokenCount = 0, newTokenCount = 0, compressionStatus = NOOP\<rparr>, s)
          else
            let originalCount = lastPromptTokenCount s;
                threshold = (case contextPercentageThreshold h of
                               None \<Rightarrow> COMPRESSION_TOKEN_THRESHOLD | Some t \<Rightarrow> t)
            in if \<not> force \<and> real_of_int originalCount < threshold * real_of_int (tokenLimit h model)
               then (Inr (noopInfo originalCount), s)
               else
                 (case findCompressSplitPoint (contentLength h) curatedHistory
                         (num_minus (Fin 1) COMPRESSION_PRESERVE_THRESHOLD) of
                    Inl e \<Rightarrow> (Inl e, s)
                  | Inr splitPoint \<Rightarrow>
                      let historyToCompress = take splitPoint curatedHistory;
                          historyToKeep = drop splitPoint curatedHistory
                      in if historyToCompress = [] then (Inr (noopInfo originalCount), s)
                         else rebuildChat h s prompt_id force model originalCount
                                historyToCompress historyToKeep))"

section \<open>Editor context parts\<close>

definition getIdeContextParts :: "host \<Rightarrow> client \<Rightarrow> bool \<Rightarrow> string list \<times> ideContext option" where
  "getIdeContextParts h s forceFullContext =
     (case ideContextStore h of
        None \<Rightarrow> ([], None)
      | Some currentIdeContext \<Rightarrow>
          (if forceFullContext \<or> lastSentIdeContext s = None then
             let data = fullContextData currentIdeContext in
             if activeFile data = None \<and> otherOpenFiles data = None
             then ([], Some currentIdeContext)
             else
               ([''Here is the user's editor context as a JSON object. This is for your information only.'',
                 ''```json'', stringifyContext h data, ''```''],
                Some currentIdeContext)
           else
             let ch = computeChanges (the (lastSentIdeContext s)) currentIdeContext in
             if noChanges ch then ([], Some currentIdeContext)
             else
               ([''Here is a summary of changes in the user's editor context, in JSON format. This is for your information only.'',
                 ''```json'', stringifyDelta h ch, ''```''],
                Some currentIdeContext)))"

section \<open>One invocation of sendMessageStream\<close>

text \<open>
  How an invocation ends: \<open>Done\<close> is \<^verbatim>\<open>return turn\<close>; \<open>Continue\<close> is the
  \<^verbatim>\<open>yield* this.sendMessageStream(nextRequest, signal, prompt_id, turns, retry)\<close> that
  comes before it; \<open>Raise\<close> is an exception leaving the generator.
\<close>

datatype control = Done | Continue "part list" int bool | Raise error

type_synonym turn_result = "event list \<times> control \<times> client"

definition returnTurn :: "event list \<Rightarrow> client \<Rightarrow> turn_result" where
  "returnTurn evs s =
     (case chat s of
        None \<Rightarrow> (evs, Raise (JsError ''Chat not initialized''), s)
      | Some ch \<Rightarrow> (evs, Done, s))"

definition sequenceReset :: "client \<Rightarrow> string \<Rightarrow> client" where
  "sequenceReset s prompt_id =
     (if lastPromptId s \<noteq> prompt_id
      then (record_action (LoopDetectorReset prompt_id) s)
             \<lparr>lastPromptId := prompt_id, currentSequenceModel := None\<rparr>
      else s)"

text \<open>The sequence reset and \<^verbatim>\<open>this.sessionTurnCount++\<close>.\<close>

definition beginTurn :: "client \<Rightarrow> string \<Rightarrow> client" where
  "beginTurn s prompt_id =
     (let s1 = sequenceReset s prompt_id
      in s1\<lparr>sessionTurnCount := sessionTurnCount s1 + 1\<rparr>)"

definition refreshSystemInstruction :: "host \<Rightarrow> client \<Rightarrow> error option \<times> client" where
  "refreshSystemInstruction h s =
     (let userMemory = getUserMemory h in
      if Some userMemory \<noteq> lastKnownChatUserMemory s then
        let s1 = s\<lparr>lastKnownChatUserMemory := Some userMemory\<rparr> in
        (case getCoreSystemPrompt h userMemory of
           Inl e \<Rightarrow> (Some e, s1)
         | Inr instruction \<Rightarrow>
             (case chat s1 of
                None \<Rightarrow> (Some (JsError ''Chat not initialized''), s1)
              | Some ch \<Rightarrow>
                  (None, s1\<lparr>chat := Some (ch\<lparr>systemInstruction := instruction\<rparr>)\<rparr>)))
      else (None, s))"

definition hasPendingToolCall :: "content list \<Rightarrow> bool" where
  "hasPendingToolCall hist =
     (hist \<noteq> [] \<and> role (last hist) = Some ''model'' \<and> hasFunctionCall (last hist))"

fun joinLines :: "string list \<Rightarrow> string" where
  "joinLines [] = []"
| "joinLines [x] = x"
| "joinLines (x # y # ys) = x @ CHR 0x0A # joinLines (y # ys)"

definition addHistory :: "content \<Rightarrow> client \<Rightarrow> chat \<Rightarrow> client" where
  "addHistory c s ch =
     (record_action (AddHistory c) s)\<lparr>chat := Some (ch\<lparr>history := history ch @ [c]\<rparr>)\<rparr>"

text \<open>The pending tool-call guard and the injection of the editor context.\<close>

definition injectIdeContext :: "host \<Rightarrow> client \<Rightarrow> chat \<Rightarrow> client" where
  "injectIdeContext h s ch =
     (if getIdeMode h \<and> \<not> hasPendingToolCall (history ch) then
        (case getIdeContextParts h s (forceFullIdeContext s \<or> history ch = []) of
           (contextParts, newIdeContext) \<Rightarrow>
             (if contextParts \<noteq> []
              then addHistory (textContent ''user'' (joinLines contextParts)) s ch
              else s)
             \<lparr>lastSentIdeContext := newIdeContext, forceFullIdeContext := False\<rparr>)
      else s)"

definition selectModel :: "host \<Rightarrow> client \<Rightarrow> content list \<Rightarrow> part list \<Rightarrow> string \<times> client" where
  "selectModel h s hist request =
     (if truthy (currentSequenceModel s) then (the (currentSequenceModel s), s)
      else
        let modelToUse = route h (curated h hist) request in
        (modelToUse,
         (record_action (RouterCall (curated h hist) request) s)
           \<lparr>currentSequenceModel := Some modelToUse\<rparr>))"

datatype stream_exit = LoopAbort | RetryFailed | Retry | ErrorStop | Exhausted

text \<open>
  The \<^verbatim>\<open>for await\<close> loop over the turn's events: what it yields, and how it is
  left. \<open>fed\<close> are the events already given to the loop detector.
\<close>

fun consumeStream :: "host \<Rightarrow> bool \<Rightarrow> event list \<Rightarrow> event list \<Rightarrow> event list \<times> stream_exit" where
  "consumeStream h isInvalidStreamRetry fed [] = ([], Exhausted)"
| "consumeStream h isInvalidStreamRetry fed (e # es) =
     (if addAndCheck h (fed @ [e]) then ([LoopDetected], LoopAbort)
      else if e = InvalidStream \<and> getContinueOnFailedApiCall h
      then ([e], if isInvalidStreamRetry then RetryFailed else Retry)
      else if isErrorEvent e then ([e], ErrorStop)
      else (case consumeStream h isInvalidStreamRetry (fed @ [e]) es of
              (yielded, exit) \<Rightarrow> (e # yielded, exit)))"

text \<open>After the stream has ended: the next-speaker check.\<close>

definition continuation :: "host \<Rightarrow> client \<Rightarrow> string \<Rightarrow> string \<Rightarrow> part list \<Rightarrow> content list \<Rightarrow> int
     \<Rightarrow> control \<times> client" where
  "continuation h s prompt_id modelToUse request hist boundedTurns =
     (if pendingToolCalls h modelToUse request hist = 0 \<and> \<not> aborted h then
        if getQuotaErrorOccurred h then (Done, s)
        else if getSkipNextSpeakerCheck h then (Done, s)
        else
          let s1 = record_action (NextSpeakerCall prompt_id) s in
          (case chat s1 of
             None \<Rightarrow> (Raise (JsError ''Chat not initialized''), s)
           | Some ch \<Rightarrow>
               if nextSpeaker h (history ch) = Some ''model''
               then (Continue [textPart ''Please continue.''] (boundedTurns - 1) False, s1)
               else (Done, s1))
      else (Done, s))"

text \<open>From \<^verbatim>\<open>turn.run\<close> to the end of the invocation.\<close>

definition runTurn ::
  "host \<Rightarrow> client \<Rightarrow> chat \<Rightarrow> part list \<Rightarrow> string \<Rightarrow> int \<Rightarrow> bool \<Rightarrow> string \<Rightarrow> event list
     \<Rightarrow> turn_result" where
  "runTurn h s ch request prompt_id boundedTurns isInvalidStreamRetry modelToUse emitted =
     (let s1 = record_action (ModelCall modelToUse request) s in
      case consumeStream h isInvalidStreamRetry [] (turnEvents h modelToUse request (history ch)) of
        (yielded, exit) \<Rightarrow>
          let s2 = s1\<lparr>chat := Some (ch\<lparr>history :=
                     turnHistory h modelToUse request (history ch) (length yielded)\<rparr>)\<rparr>
          in (case exit of
                LoopAbort \<Rightarrow> (emitted @ yielded, Done, record_action ControllerAbort s2)
              | RetryFailed \<Rightarrow>
                  (emitted @ yielded, Done,
                   record_action
                     (LogContentRetryFailure 4 ''FAILED_AFTER_PROMPT_INJECTION'' modelToUse) s2)
              | Retry \<Rightarrow>
                  (emitted @ yielded,
                   Continue [textPart ''System: Please continue.''] (boundedTurns - 1) True, s2)
              | ErrorStop \<Rightarrow> (emitted @ yielded, Done, s2)
              | Exhausted \<Rightarrow>
                  (case continuation h s2 prompt_id modelToUse request (history ch) boundedTurns of
                     (ctl, s3) \<Rightarrow> (emitted @ yielded, ctl, s3))))"

text \<open>From the system-instruction refresh to the model call.\<close>

definition prepareAndRun ::
  "host \<Rightarrow> client \<Rightarrow> part list \<Rightarrow> string \<Rightarrow> int \<Rightarrow> bool \<Rightarrow> event list \<Rightarrow> turn_result" where
  "prepareAndRun h s request prompt_id boundedTurns isInvalidStreamRetry emitted =
     (case refreshSystemInstruction h s of
        (Some e, s1) \<Rightarrow> (emitted, Raise e, s1)
      | (None, s1) \<Rightarrow>
          (case chat s1 of
             None \<Rightarrow> (emitted, Raise (JsError ''Chat not initialized''), s1)
           | Some ch \<Rightarrow>
               let s2 = injectIdeContext h s1 ch in
               (case chat s2 of
                  None \<Rightarrow> (emitted, Raise (JsError ''Chat not initialized''), s2)
                | Some ch2 \<Rightarrow>
                    if turnStarted h then (emitted @ [LoopDetected], Done, s2)
                    else
                      (case selectModel h s2 (history ch2) request of
                         (modelToUse, s3) \<Rightarrow>
                           runTurn h s3 ch2 request prompt_id boundedTurns
                             isInvalidStreamRetry modelToUse emitted))))"

definition sendMessageStreamTurn ::
  "host \<Rightarrow> client \<Rightarrow> part list \<Rightarrow> string \<Rightarrow> int \<Rightarrow> bool \<Rightarrow> turn_result" where
  "sendMessageStreamTurn h s request prompt_id turns isInvalidStreamRetry =
     (let s2 = beginTurn s prompt_id
      in if 0 < getMaxSessionTurns h \<and> getMaxSessionTurns h < int (sessionTurnCount s2)
         then returnTurn [MaxSessionTurns] s2
         else
           let boundedTurns = min turns MAX_TURNS in
           if boundedTurns = 0 then returnTurn [] s2
           else
             let modelForLimitCheck = getEffectiveModelForCurrentTurn h s2;
                 estimatedRequestTokenCount = int (requestLength h request div 4);
                 remainingTokenCount = tokenLimit h modelForLimitCheck - lastPromptTokenCount s2
             in if real_of_int remainingTokenCount * (95 / 100)
                     < real_of_int estimatedRequestTokenCount
                then returnTurn
                       [ContextWindowWillOverflow estimatedRequestTokenCount remainingTokenCount] s2
                else
                  (case tryCompressChat h s2 prompt_id False of
                     (Inl e, s3) \<Rightarrow> ([], Raise e, s3)
                   | (Inr compressed, s3) \<Rightarrow>
                       prepareAndRun h s3 request prompt_id boundedTurns isInvalidStreamRetry
                         (if compressionStatus compressed = COMPRESSED
                          then [ChatCompressed compressed] else [])))"

section \<open>The recursion of sendMessageStream\<close>

text \<open>
  An invocation that ends in \<open>Continue\<close> runs the next one on the state it left and
  passes its events on. The host may answer differently at every invocation: the
  invocation that finds the session turn count at \<open>k\<close> talks to \<open>hosts k\<close>. Whether the
  recursion ends depends on the hosts, so it is run on fuel, one unit per invocation;
  \<open>Pending\<close> is the recursive call that the fuel did not reach.
\<close>

datatype outcome = Returned | Threw error | Pending "part list" int bool

fun sendMessageStream ::
  "nat \<Rightarrow> (nat \<Rightarrow> host) \<Rightarrow> client \<Rightarrow> part list \<Rightarrow> string \<Rightarrow> int \<Rightarrow> bool
     \<Rightarrow> event list \<times> outcome \<times> client" where
  "sendMessageStream 0 hosts s request prompt_id turns isInvalidStreamRetry =
     ([], Pending request turns isInvalidStreamRetry, s)"
| "sendMessageStream (Suc fuel) hosts s request prompt_id turns isInvalidStreamRetry =
     (case sendMessageStreamTurn (hosts (sessionTurnCount s)) s request prompt_id turns
             isInvalidStreamRetry of
        (evs, Done, s1) \<Rightarrow> (evs, Returned, s1)
      | (evs, Raise e, s1) \<Rightarrow> (evs, Threw e, s1)
      | (evs, Continue nextRequest turns1 retry1, s1) \<Rightarrow>
          (case sendMessageStream fuel hosts s1 nextRequest prompt_id turns1 retry1 of
             (evs1, out, s2) \<Rightarrow> (evs @ evs1, out, s2)))"

text \<open>
  Reading the log: \<open>loggedOnly A s s'\<close> says that from \<open>s\<close> to \<open>s'\<close> the log grew,
  by actions of kind \<open>A\<close> only.
\<close>

fun isModelCall :: "action \<Rightarrow> bool" where
  "isModelCall (ModelCall m r) = True"
| "isModelCall a = False"

fun isRouterCall :: "action \<Rightarrow> bool" where
  "isRouterCall (RouterCall c r) = True"
| "isRouterCall a = False"

fun isAddHistory :: "action \<Rightarrow> bool" where
  "isAddHistory (AddHistory c) = True"
| "isAddHistory a = False"

fun isCompressionAction :: "action \<Rightarrow> bool" where
  "isCompressionAction (SummaryCall m c) = True"
| "isCompressionAction (LogChatCompression a b) = True"
| "isCompressionAction a = False"

fun isTurnAction :: "action \<Rightarrow> bool" where
  "isTurnAction ControllerAbort = True"
| "isTurnAction (LogContentRetryFailure n r m) = True"
| "isTurnAction (NextSpeakerCall p) = True"
| "isTurnAction a = False"

definition loggedOnly :: "(action \<Rightarrow> bool) \<Rightarrow> client \<Rightarrow> client \<Rightarrow> bool" where
  "loggedOnly A s s' = (\<exists>xs. log s' = log s @ xs \<and> list_all A xs)"

definition modelCalls :: "action list \<Rightarrow> nat" where
  "modelCalls acts = length (filter isModelCall acts)"

definition routerCalls :: "action list \<Rightarrow> nat" where
  "routerCalls acts = length (filter isRouterCall acts)"

definition historyAppends :: "action list \<Rightarrow> nat" where
  "historyAppends acts = length (filter isAddHistory acts)"

section \<open>Concrete hosts and histories\<close>

text \<open>
  For the examples: the compact JSON text of an entry whose strings need no escaping,
  a call or response standing as an object with its name.
\<close>

definition quoted :: "string \<Rightarrow> string" where
  "quoted t = CHR 0x22 # t @ [CHR 0x22]"

fun commaSep :: "string list \<Rightarrow> string" where
  "commaSep [] = []"
| "commaSep [x] = x"
| "commaSep (x # y # ys) = x @ CHR '','' # commaSep (y # ys)"

definition jsonObject :: "(string \<times> string) list \<Rightarrow> string" where
  "jsonObject kvs = ''{'' @ commaSep (map (\<lambda>(k, v). quoted k @ '':'' @ v) kvs) @ ''}''"

definition jsonArray :: "string list \<Rightarrow> string" where
  "jsonArray xs = ''['' @ commaSep xs @ '']''"

definition optField :: "string \<Rightarrow> string option \<Rightarrow> (string \<times> string) list" where
  "optField k v = (case v of None \<Rightarrow> [] | Some t \<Rightarrow> [(k, t)])"

definition jsonOfPart :: "part \<Rightarrow> string" where
  "jsonOfPart p =
     jsonObject
       (optField ''text'' (map_option quoted (text_part p))
        @ optField ''functionCall''
            (map_option (\<lambda>n. jsonObject [(''name'', quoted n)]) (functionCall p))
        @ optField ''functionResponse''
            (map_option (\<lambda>n. jsonObject [(''name'', quoted n)]) (functionResponse p)))"

definition jsonOfContent :: "content \<Rightarrow> string" where
  "jsonOfContent c =
     jsonObject
       (optField ''role'' (map_option quoted (role c))
        @ optField ''parts'' (map_option (\<lambda>ps. jsonArray (map jsonOfPart ps)) (parts c)))"

definition callContent :: "string \<Rightarrow> content" where
  "callContent n =
     \<lparr>role = Some ''model'',
      parts = Some [\<lparr>text_part = None, functionCall = Some n, functionResponse = None\<rparr>]\<rparr>"

definition responseContent :: "string \<Rightarrow> content" where
  "responseContent n =
     \<lparr>role = Some ''user'',
      parts = Some [\<lparr>text_part = None, functionCall = None, functionResponse = Some n\<rparr>]\<rparr>"

text \<open>
  A host that routes to one model, whose turn answers with some content and ends, and
  whose next-speaker check hands over to the user.
\<close>

definition quietHost :: host where
  "quietHost =
     \<lparr>getModel = ''gemini-2.5-pro'', isInFallbackMode = False, getMaxSessionTurns = - 1,
      getIdeMode = False, getContinueOnFailedApiCall = True, getQuotaErrorOccurred = False,
      getSkipNextSpeakerCheck = False, getUserMemory = ''memory'',
      contextPercentageThreshold = None,
      DEFAULT_GEMINI_MODEL_AUTO = ''auto'', DEFAULT_GEMINI_MODEL = ''gemini-2.5-pro'',
      getEffectiveModel = (\<lambda>fallback m. if fallback then ''gemini-2.5-flash'' else m),
      tokenLimit = (\<lambda>m. 1000000),
      getCoreSystemPrompt = (\<lambda>m. Inr ''system''),
      allSetupText = ''setup'',
      contentLength = (\<lambda>c. length (jsonOfContent c)),
      requestLength = (\<lambda>r. length (jsonArray (map jsonOfPart r))),
      stringifyContext = (\<lambda>d. ''{}''), stringifyDelta = (\<lambda>d. ''{}''),
      curated = (\<lambda>hist. hist),
      generateSummary = (\<lambda>m cs. Inr (Some ''summary'')),
      ideContextStore = None,
      turnStarted = False,
      route = (\<lambda>hist r. ''gemini-2.5-pro''),
      turnEvents = (\<lambda>m r hist. [Content ''ok'', Finished]),
      turnHistory = (\<lambda>m r hist n. hist @ [\<lparr>role = Some ''user'', parts = Some r\<rparr>,
                                              textContent ''model'' ''ok'']),
      pendingToolCalls = (\<lambda>m r hist. 0),
      addAndCheck = (\<lambda>evs. False),
      aborted = False,
      nextSpeaker = (\<lambda>hist. Some ''user'')\<rparr>"

definition freshClient :: "content list \<Rightarrow> client" where
  "freshClient hist =
     \<lparr>chat = Some \<lparr>history = hist, systemInstruction = ''system''\<rparr>,
      sessionTurnCount = 0, lastPromptId = ''session'', currentSequenceModel = None,
      lastSentIdeContext = None, forceFullIdeContext = True,
      lastKnownChatUserMemory = Some ''memory'', hasFailedCompressionAttempt = False,
      lastPromptTokenCount = 0, log = []\<rparr>"

definition smallHistory :: "content list" where
  "smallHistory =
     [textContent ''user'' ''setup'', textContent ''user'' ''hello'', textContent ''model'' ''hi'']"

definition toolHistory :: "content list" where
  "toolHistory =
     [textContent ''user'' ''hello'', textContent ''model'' ''hi'', textContent ''user'' ''do X'',
      callContent ''A'', responseContent ''A'']"

definition jsonLengthOf :: "content \<Rightarrow> nat" where
  "jsonLengthOf c = length (jsonOfContent c)"

definition shrunkHost :: host where
  "shrunkHost = quietHost\<lparr>tokenLimit := (\<lambda>m. 10)\<rparr>"

definition rebuiltFrom :: "host \<Rightarrow> string \<Rightarrow> content list \<Rightarrow> content list" where
  "rebuiltFrom h summary historyToKeep =
     textContent ''user'' (allSetupText h) # textContent ''user'' summary
     # textContent ''model'' ''Got it. Thanks for the additional context!'' # historyToKeep"


definition inflatedClient :: client where
  "inflatedClient = (freshClient smallHistory)\<lparr>lastPromptTokenCount := 40\<rparr>"

definition levelClient :: client where
  "levelClient = (freshClient smallHistory)\<lparr>lastPromptTokenCount := 41\<rparr>"

definition summaryRequest :: "content list" where
  "summaryRequest = smallHistory @ [textContent ''user''
      ''First, reason in your scratchpad. Then, generate the <state_snapshot>.'']"

definition rebuiltHistory :: "content list" where
  "rebuiltHistory = [textContent ''user'' ''setup'', textContent ''user'' ''summary'',
      textContent ''model'' ''Got it. Thanks for the additional context!'']"

text \<open>Two editor snapshots with the same active file: the cursor is gone in the second.\<close>

definition snapshotWithCursor :: ideContext where
  "snapshotWithCursor =
     \<lparr>openFiles = Some [\<lparr>path = ''a.ts'', isActive = True,
                           cursor = Some \<lparr>line = 1, character = 1\<rparr>,
                           selectedText = None\<rparr>]\<rparr>"

definition snapshotWithoutCursor :: ideContext where
  "snapshotWithoutCursor =
     \<lparr>openFiles = Some [\<lparr>path = ''a.ts'', isActive = True, cursor = None,
                           selectedText = None\<rparr>]\<rparr>"

definition snapshotMoved :: ideContext where
  "snapshotMoved =
     \<lparr>openFiles = Some [\<lparr>path = ''a.ts'', isActive = True,
                           cursor = Some \<lparr>line = 2, character = 1\<rparr>,
                           selectedText = Some ''x''\<rparr>]\<rparr>"

definition deltaHeader :: string where
  "deltaHeader = ''Here is a summary of changes in the user's editor context, in JSON format. This is for your information only.''"

text \<open>The test of the context window guard, on the state after \<open>beginTurn\<close>.\<close>

definition overflows :: "host \<Rightarrow> client \<Rightarrow> part list \<Rightarrow> bool" where
  "overflows h s request =
     (real_of_int (tokenLimit h (getEffectiveModelForCurrentTurn h s) - lastPromptTokenCount s)
        * (95 / 100)
      < real_of_int (int (requestLength h request div 4)))"

text \<open>A host with a token limit of 10000 and a request whose JSON text has \<open>n\<close> characters.\<close>

definition budgetHost :: "nat \<Rightarrow> host" where
  "budgetHost n = quietHost\<lparr>tokenLimit := (\<lambda>m. 10000), requestLength := (\<lambda>r. n)\<rparr>"

text \<open>
  A host whose turn yields some content and then an invalid stream, and leaves only the
  request in the history.
\<close>

definition invalidHost :: host where
  "invalidHost =
     quietHost\<lparr>turnEvents := (\<lambda>m r hist. [Content ''partial'', InvalidStream]),
               turnHistory := (\<lambda>m r hist n. hist @ [\<lparr>role = Some ''user'', parts = Some r\<rparr>])\<rparr>"

definition afterFirstInvalid :: client where
  "afterFirstInvalid =
     (freshClient (smallHistory @ [\<lparr>role = Some ''user'', parts = Some [textPart ''hi'']\<rparr>]))
     \<lparr>sessionTurnCount := 1, lastPromptId := ''p'',
       currentSequenceModel := Some ''gemini-2.5-pro'',
       log := [LoopDetectorReset ''p'', RouterCall smallHistory [textPart ''hi''],
               ModelCall ''gemini-2.5-pro'' [textPart ''hi'']]\<rparr>"

definition afterSecondInvalid :: client where
  "afterSecondInvalid =
     (freshClient (smallHistory @ [\<lparr>role = Some ''user'', parts = Some [textPart ''hi'']\<rparr>,
                                    \<lparr>role = Some ''user'',
                                       parts = Some [textPart ''System: Please continue.'']\<rparr>]))
     \<lparr>sessionTurnCount := 2, lastPromptId := ''p'',
       currentSequenceModel := Some ''gemini-2.5-pro'',
       log := [LoopDetectorReset ''p'', RouterCall smallHistory [textPart ''hi''],
               ModelCall ''gemini-2.5-pro'' [textPart ''hi''],
               ModelCall ''gemini-2.5-pro'' [textPart ''System: Please continue.''],
               LogContentRetryFailure 4 ''FAILED_AFTER_PROMPT_INJECTION'' ''gemini-2.5-pro'']\<rparr>"






text \<open>
  A run of top-level requests with one prompt id, each with its turn budget and the
  fuel of its recursion, sent one after the other on the same client.
\<close>

fun sendMessages ::
  "(nat \<Rightarrow> host) \<Rightarrow> client \<Rightarrow> string \<Rightarrow> (part list \<times> int \<times> nat) list \<Rightarrow> client" where
  "sendMessages hosts s prompt_id [] = s"
| "sendMessages hosts s prompt_id ((request, turns, fuel) # rest) =
     sendMessages hosts
       (snd (snd (sendMessageStream fuel hosts s request prompt_id turns False)))
       prompt_id rest"

text \<open>An action that, if it is a model call, calls the model \<open>pinned\<close>.\<close>

definition usesModel :: "string option \<Rightarrow> action \<Rightarrow> bool" where
  "usesModel pinned a = (case a of ModelCall m r \<Rightarrow> pinned = Some m | _ \<Rightarrow> True)"


text \<open>
  Two requests of one sequence; a client in the middle of sequence \<open>p\<close> with a pinned
  model; a host with a session turn cap of 1; a host whose router answers with the empty
  model name.
\<close>

definition twoRequests :: "(part list \<times> int \<times> nat) list" where
  "twoRequests = [([textPart ''hi''], 100, 3), ([textPart ''again''], 100, 3)]"

definition pinnedClient :: client where
  "pinnedClient =
     (freshClient smallHistory)
     \<lparr>sessionTurnCount := 1, lastPromptId := ''p'',
       currentSequenceModel := Some ''gemini-2.5-pro''\<rparr>"

definition cappedHost :: host where
  "cappedHost = quietHost\<lparr>getMaxSessionTurns := 1\<rparr>"

definition blankHost :: host where
  "blankHost = quietHost\<lparr>route := (\<lambda>hist r. [])\<rparr>"

text \<open>The client after the first and after the second of the two requests, on the quiet host.\<close>

definition afterHi :: client where
  "afterHi =
     (freshClient (smallHistory @ [\<lparr>role = Some ''user'', parts = Some [textPart ''hi'']\<rparr>,
                                    textContent ''model'' ''ok'']))
     \<lparr>sessionTurnCount := 1, lastPromptId := ''p'',
       currentSequenceModel := Some ''gemini-2.5-pro'',
       log := [LoopDetectorReset ''p'', RouterCall smallHistory [textPart ''hi''],
               ModelCall ''gemini-2.5-pro'' [textPart ''hi''], NextSpeakerCall ''p'']\<rparr>"

definition afterAgain :: client where
  "afterAgain =
     (freshClient (smallHistory @ [\<lparr>role = Some ''user'', parts = Some [textPart ''hi'']\<rparr>,
                                    textContent ''model'' ''ok'',
                                    \<lparr>role = Some ''user'', parts = Some [textPart ''again'']\<rparr>,
                                    textContent ''model'' ''ok'']))
     \<lparr>sessionTurnCount := 2, lastPromptId := ''p'',
       currentSequenceModel := Some ''gemini-2.5-pro'',
       log := [LoopDetectorReset ''p'', RouterCall smallHistory [textPart ''hi''],
               ModelCall ''gemini-2.5-pro'' [textPart ''hi''], NextSpeakerCall ''p'',
               ModelCall ''gemini-2.5-pro'' [textPart ''again''], NextSpeakerCall ''p'']\<rparr>"

text \<open>The same on the host whose router answers with the empty name.\<close>

definition blankAfterHi :: client where
  "blankAfterHi =
     (freshClient (smallHistory @ [\<lparr>role = Some ''user'', parts = Some [textPart ''hi'']\<rparr>,
                                    textContent ''model'' ''ok'']))
     \<lparr>sessionTurnCount := 1, lastPromptId := ''p'', currentSequenceModel := Some [],
       log := [LoopDetectorReset ''p'', RouterCall smallHistory [textPart ''hi''],
               ModelCall [] [textPart ''hi''], NextSpeakerCall ''p'']\<rparr>"

definition blankAfterAgain :: client where
  "blankAfterAgain =
     (freshClient (smallHistory @ [\<lparr>role = Some ''user'', parts = Some [textPart ''hi'']\<rparr>,
                                    textContent ''model'' ''ok'',
                                    \<lparr>role = Some ''user'', parts = Some [textPart ''again'']\<rparr>,
                                    textContent ''model'' ''ok'']))
     \<lparr>sessionTurnCount := 2, lastPromptId := ''p'', currentSequenceModel := Some [],
       log := [LoopDetectorReset ''p'', RouterCall smallHistory [textPart ''hi''],
               ModelCall [] [textPart ''hi''], NextSpeakerCall ''p'',
               RouterCall (smallHistory @ [\<lparr>role = Some ''user'',
                                               parts = Some [textPart ''hi'']\<rparr>,
                                            textContent ''model'' ''ok''])
                 [textPart ''again''],
               ModelCall [] [textPart ''again''], NextSpeakerCall ''p'']\<rparr>"

text \<open>The pinned client after a request of a new sequence \<open>q\<close>.\<close>

definition afterNew :: client where
  "afterNew =
     (freshClient (smallHistory @ [\<lparr>role = Some ''user'', parts = Some [textPart ''new'']\<rparr>,
                                    textContent ''model'' ''ok'']))
     \<lparr>sessionTurnCount := 2, lastPromptId := ''q'',
       currentSequenceModel := Some ''gemini-2.5-pro'',
       log := [LoopDetectorReset ''q'', RouterCall smallHistory [textPart ''new''],
               ModelCall ''gemini-2.5-pro'' [textPart ''new''], NextSpeakerCall ''q'']\<rparr>"

text \<open>A host whose next-speaker check always hands the turn back to the model.\<close>

definition chattyHost :: host where
  "chattyHost = quietHost\<lparr>nextSpeaker := (\<lambda>hist. Some ''model'')\<rparr>"





text \<open>
  A history whose entries have JSON lengths 52, 38 and 40.
\<close>

definition roundingHistory :: "content list" where
  "roundingHistory =
     [textContent ''user'' ''0123456789abcde'', textContent ''user'' ''a'',
      textContent ''model'' ''ab'']"

section \<open>Evaluation\<close>

lemmas json_defs = quoted_def jsonObject_def jsonArray_def optField_def jsonOfPart_def
  jsonOfContent_def

lemmas example_defs = quietHost_def freshClient_def smallHistory_def textContent_def
  textPart_def callContent_def responseContent_def toolHistory_def jsonLengthOf_def
  shrunkHost_def

lemmas round_defs = roundDouble_def ilog2_def roundEven_def isDouble_def bitlen_def
  compute_floorlog Let_def

lemmas split_defs = findCompressSplitPoint_def isSplitCandidate_def hasFunctionResponse_def
  hasFunctionCall_def num_ge_def

text \<open>
  The fraction that \<^verbatim>\<open>tryCompressChat\<close> passes, \<^verbatim>\<open>1 - COMPRESSION_PRESERVE_THRESHOLD\<close>:
  the binary64 value of \<^verbatim>\<open>0.7\<close>.
\<close>

lemma preserved_fraction:
  "num_minus (Fin 1) COMPRESSION_PRESERVE_THRESHOLD = Fin (3152519739159347 / 2 ^ 52)"
  by (simp add: COMPRESSION_PRESERVE_THRESHOLD_def round_defs)

lemma preserved_fraction_is_double: "isDouble (Fin (3152519739159347 / 2 ^ 52))"
  by (simp add: round_defs)

lemmas compress_defs = tryCompressChat_def rebuildChat_def startChat_def noopInfo_def
  estimateTokens_def getEffectiveModelForCurrentTurn_def truthy_def record_action_def
  COMPRESSION_TOKEN_THRESHOLD_def preserved_fraction

section \<open>Rounding\<close>

text \<open>
  \<open>ilog2\<close> is the exponent, and \<open>roundEven\<close> is within a half of its argument.
  The literals \<^verbatim>\<open>0.1\<close> and \<^verbatim>\<open>0.4\<close>, a tie that goes to the even neighbour, the
  overflow and the underflow are as the format has them.
\<close>

lemma ilog2_bounds:
  assumes "0 < x"
  shows "2 powi (ilog2 x) \<le> x \<and> x < 2 powi (ilog2 x + 1)"
proof (cases "1 \<le> x")
  case True
  define n where "n = \<lfloor>x\<rfloor>"
  from True have n: "0 < n" by (simp add: n_def)
  from bitlen_bounds [OF n] have b: "2 ^ nat (bitlen n - 1) \<le> n" "n < 2 ^ nat (bitlen n)"
    by simp_all
  from n have k: "1 \<le> bitlen n" by (simp add: bitlen_alt_def)
  have "real_of_int n \<le> x" by (simp add: n_def)
  moreover from b(1) have "(2::real) ^ nat (bitlen n - 1) \<le> real_of_int n"
    by (metis of_int_le_iff of_int_numeral of_int_power)
  ultimately have lo: "(2::real) ^ nat (bitlen n - 1) \<le> x" by linarith
  have "x < real_of_int (n + 1)" unfolding n_def by linarith
  moreover from b(2) have "n + 1 \<le> 2 ^ nat (bitlen n)" by simp
  then have "real_of_int (n + 1) \<le> (2::real) ^ nat (bitlen n)"
    by (metis of_int_le_iff of_int_numeral of_int_power)
  ultimately have hi: "x < (2::real) ^ nat (bitlen n)" by linarith
  from k have e1: "(2::real) powi (bitlen n - 1) = 2 ^ nat (bitlen n - 1)"
    by (simp add: power_int_def)
  from k have e2: "(2::real) powi (bitlen n - 1 + 1) = 2 ^ nat (bitlen n)"
    by (simp add: power_int_def)
  from True lo hi e1 e2 show ?thesis by (simp add: ilog2_def n_def)
next
  case False
  with assms have x: "0 < x" "x < 1" by simp_all
  define m where "m = \<lceil>1 / x\<rceil> - 1"
  from x have "1 < 1 / x" by simp
  then have "2 \<le> \<lceil>1 / x\<rceil>" by linarith
  then have m: "0 < m" by (simp add: m_def)
  from bitlen_bounds [OF m] have b: "2 ^ nat (bitlen m - 1) \<le> m" "m < 2 ^ nat (bitlen m)"
    by simp_all
  from m have k: "1 \<le> bitlen m" by (simp add: bitlen_alt_def)
  have "1 / x \<le> real_of_int (m + 1)" unfolding m_def by simp
  moreover from b(2) have "m + 1 \<le> 2 ^ nat (bitlen m)" by simp
  then have "real_of_int (m + 1) \<le> (2::real) ^ nat (bitlen m)"
    by (metis of_int_le_iff of_int_numeral of_int_power)
  ultimately have "1 / x \<le> (2::real) ^ nat (bitlen m)" by linarith
  with x have lo: "1 / (2::real) ^ nat (bitlen m) \<le> x"
    by (simp add: field_simps)
  have "real_of_int m < 1 / x" unfolding m_def by linarith
  moreover from b(1) have "(2::real) ^ nat (bitlen m - 1) \<le> real_of_int m"
    by (metis of_int_le_iff of_int_numeral of_int_power)
  ultimately have "(2::real) ^ nat (bitlen m - 1) < 1 / x" by linarith
  with x have hi: "x < 1 / (2::real) ^ nat (bitlen m - 1)"
    by (simp add: field_simps)
  from k have e1: "(2::real) powi (- bitlen m) = 1 / 2 ^ nat (bitlen m)"
    by (simp add: power_int_def field_simps)
  from k have e2: "(2::real) powi (- bitlen m + 1) = 1 / 2 ^ nat (bitlen m - 1)"
    by (cases "bitlen m = 1") (simp_all add: power_int_def field_simps nat_diff_distrib)
  from False lo hi e1 e2 show ?thesis by (simp add: ilog2_def m_def)
qed

lemma roundEven_nearest: "\<bar>r - of_int (roundEven r)\<bar> \<le> 1 / 2"
  unfolding roundEven_def Let_def by (auto split: if_splits)

lemma roundDouble_examples:
  "roundDouble (1 / 10) = Fin (3602879701896397 / 2 ^ 55)"
  "roundDouble (4 / 10) = Fin (3602879701896397 / 2 ^ 53)"
  "roundDouble (1 + 1 / 2 ^ 53) = Fin 1"
  "roundDouble (1 + 3 / 2 ^ 53) = Fin (1 + 1 / 2 ^ 51)"
  "roundDouble (2 ^ 1024) = PosInf"
  "roundDouble (- (1 / 2 ^ 1075)) = Fin 0"
  by (simp_all add: round_defs)

section \<open>The split point: the loop\<close>

lemma foldl_plus_sum: "foldl (+) a xs = a + sum_list (xs::nat list)"
  by (induction xs arbitrary: a) auto

lemma find_map_Suc: "find P (map Suc xs) = map_option Suc (find (\<lambda>k. P (Suc k)) xs)"
  by (induction xs) auto

lemma splitLoop_Return:
  "splitLoop t zs i l c = Return r \<Longrightarrow>
     \<exists>k<length zs. r = i + k \<and> isSplitCandidate (fst (zs ! k))"
proof (induction zs arbitrary: i l c)
  case Nil
  then show ?case by simp
next
  case (Cons z zs)
  obtain a n where z: "z = (a, n)" by (cases z)
  show ?case
  proof (cases "isSplitCandidate a \<and> num_ge (Fin (real c)) t")
    case True
    with Cons.prems z show ?thesis by auto
  next
    case False
    with Cons.prems z obtain l' where "splitLoop t zs (i + 1) l' (c + n) = Return r"
      by (auto split: if_splits)
    from Cons.IH [OF this] obtain k where "k < length zs" "r = i + 1 + k"
      "isSplitCandidate (fst (zs ! k))" by blast
    then show ?thesis by (intro exI [of _ "Suc k"]) simp
  qed
qed

lemma splitLoop_Fallthrough:
  "splitLoop t zs i l c = Fallthrough r \<Longrightarrow>
     r = l \<or> (\<exists>k<length zs. r = i + k \<and> isSplitCandidate (fst (zs ! k)))"
proof (induction zs arbitrary: i l c)
  case Nil
  then show ?case by simp
next
  case (Cons z zs)
  obtain a n where z: "z = (a, n)" by (cases z)
  show ?case
  proof (cases "isSplitCandidate a")
    case True
    with Cons.prems z have "splitLoop t zs (i + 1) i (c + n) = Fallthrough r"
      by (auto split: if_splits)
    from Cons.IH [OF this] show ?thesis
    proof
      assume "r = i"
      with True z show ?thesis by (intro disjI2 exI [of _ 0]) simp
    next
      assume "\<exists>k<length zs. r = i + 1 + k \<and> isSplitCandidate (fst (zs ! k))"
      then obtain k where "k < length zs" "r = i + 1 + k" "isSplitCandidate (fst (zs ! k))"
        by blast
      then show ?thesis by (intro disjI2 exI [of _ "Suc k"]) simp
    qed
  next
    case False
    with Cons.prems z have "splitLoop t zs (i + 1) l (c + n) = Fallthrough r"
      by (auto split: if_splits)
    from Cons.IH [OF this] show ?thesis
    proof
      assume "r = l" then show ?thesis by simp
    next
      assume "\<exists>k<length zs. r = i + 1 + k \<and> isSplitCandidate (fst (zs ! k))"
      then obtain k where "k < length zs" "r = i + 1 + k" "isSplitCandidate (fst (zs ! k))"
        by blast
      then show ?thesis by (intro disjI2 exI [of _ "Suc k"]) simp
    qed
  qed
qed

lemma splitLoop_char:
  "splitLoop t zs i l c =
     (case find (reachedAt t zs c) [0..<length zs] of
        Some k \<Rightarrow> Return (i + k)
      | None \<Rightarrow>
          Fallthrough
            (case filter (\<lambda>k. isSplitCandidate (fst (zs ! k))) [0..<length zs] of
               [] \<Rightarrow> l
             | j # js \<Rightarrow> i + last (j # js)))"
proof (induction zs arbitrary: i l c)
  case Nil
  then show ?case by simp
next
  case (Cons z zs)
  obtain a n where z: "z = (a, n)" by (cases z)
  have upt: "[0..<length (z # zs)] = 0 # map Suc [0..<length zs]"
    by (simp add: upt_conv_Cons map_Suc_upt del: upt_Suc)
  have r0: "reachedAt t (z # zs) c 0 = (isSplitCandidate a \<and> num_ge (Fin (real c)) t)"
    by (simp add: reachedAt_def z)
  have rS: "\<And>k. reachedAt t (z # zs) c (Suc k) = reachedAt t zs (c + n) k"
    by (simp add: reachedAt_def z add.assoc)
  have fS: "filter (\<lambda>k. isSplitCandidate (fst ((z # zs) ! k))) (map Suc [0..<length zs])
            = map Suc (filter (\<lambda>k. isSplitCandidate (fst (zs ! k))) [0..<length zs])"
    by (simp add: filter_map comp_def)
  let ?F = "find (reachedAt t zs (c + n)) [0..<length zs]"
  let ?G = "filter (\<lambda>k. isSplitCandidate (fst (zs ! k))) [0..<length zs]"
  have findC: "find (reachedAt t (z # zs) c) [0..<length (z # zs)] =
      (if isSplitCandidate a \<and> num_ge (Fin (real c)) t then Some 0 else map_option Suc ?F)"
    unfolding upt by (simp add: r0 rS find_map_Suc)
  have filterC: "filter (\<lambda>k. isSplitCandidate (fst ((z # zs) ! k))) [0..<length (z # zs)] =
      (if isSplitCandidate a then 0 # map Suc ?G else map Suc ?G)"
    unfolding upt using fS by (simp add: z)
  show ?case
  proof (cases "isSplitCandidate a")
    case True
    show ?thesis
    proof (cases "num_ge (Fin (real c)) t")
      case ge: True
      with True show ?thesis unfolding findC by (simp add: z)
    next
      case nge: False
      have "splitLoop t (z # zs) i l c = splitLoop t zs (i + 1) i (c + n)"
        using True nge by (simp add: z)
      also have "\<dots> = (case ?F of Some k \<Rightarrow> Return (i + 1 + k)
          | None \<Rightarrow> Fallthrough (case ?G of [] \<Rightarrow> i | j # js \<Rightarrow> i + 1 + last (j # js)))"
        by (rule Cons.IH)
      also have "\<dots> = (case map_option Suc ?F of Some k \<Rightarrow> Return (i + k)
          | None \<Rightarrow> Fallthrough (i + last (0 # map Suc ?G)))"
        by (cases ?F; cases ?G) (simp_all add: last_map)
      finally show ?thesis unfolding findC filterC using True nge by (cases ?F; cases ?G; simp)
    qed
  next
    case False
    have "splitLoop t (z # zs) i l c = splitLoop t zs (i + 1) l (c + n)"
      using False by (simp add: z)
    also have "\<dots> = (case ?F of Some k \<Rightarrow> Return (i + 1 + k)
        | None \<Rightarrow> Fallthrough (case ?G of [] \<Rightarrow> l | j # js \<Rightarrow> i + 1 + last (j # js)))"
      by (rule Cons.IH)
    also have "\<dots> = (case map_option Suc ?F of Some k \<Rightarrow> Return (i + k)
        | None \<Rightarrow> Fallthrough (case map Suc ?G of [] \<Rightarrow> l | j # js \<Rightarrow> i + last (j # js)))"
      by (cases ?F; cases ?G) (simp_all add: last_map)
    finally show ?thesis unfolding findC filterC using False by (cases ?F; cases ?G; simp)
  qed
qed

lemma zip_map_nth: "k < length xs \<Longrightarrow> fst (zip xs (map w xs) ! k) = xs ! k"
  by simp

lemma zip_map_take_snd: "map snd (take k (zip xs (map w xs))) = map w (take k xs)"
  by (simp add: take_zip take_map [symmetric] del: take_map)

lemma findCompressSplitPoint_index:
  assumes "findCompressSplitPoint w cs fr = Inr i"
  shows "i = 0 \<or> i = length cs \<or> (i < length cs \<and> isSplitCandidate (cs ! i))"
proof -
  let ?zs = "zip cs (map w cs)"
  let ?t = "num_times (Fin (real (foldl (+) 0 (map w cs)))) fr"
  show ?thesis
  proof (cases "splitLoop ?t ?zs 0 0 0")
    case (Return r)
    from splitLoop_Return [OF this] obtain k where "k < length ?zs" "r = k"
      "isSplitCandidate (fst (?zs ! k))" by auto
    moreover from assms Return have "i = r"
      by (simp add: findCompressSplitPoint_def Let_def split: if_splits)
    ultimately show ?thesis by simp
  next
    case (Fallthrough r)
    from splitLoop_Fallthrough [OF this]
    have "r = 0 \<or> (r < length cs \<and> isSplitCandidate (cs ! r))" by auto
    moreover from assms Fallthrough have "i = length cs \<or> i = r"
      by (simp add: findCompressSplitPoint_def Let_def split: if_splits)
    ultimately show ?thesis by auto
  qed
qed

lemma findCompressSplitPoint_Inl:
  "(\<exists>e. findCompressSplitPoint w cs fr = Inl e) = (num_le fr (Fin 0) \<or> num_ge fr (Fin 1))"
  by (auto simp: findCompressSplitPoint_def Let_def split: loop_exit.splits)


section \<open>The split point: claims\<close>

text \<open>
  C2 (amended). For every content list and every fraction strictly between 0 and 1,
  \<^verbatim>\<open>findCompressSplitPoint\<close>, weighting each entry by the length of its JSON text,
  returns the first index whose entry is a user entry without a function response and
  before which the summed weight is at least the product of total weight and fraction
  as the program computes it, in binary64 arithmetic (the exact product rounded to
  nearest, ties to even); if there is no such index it returns the full length when the
  final entry is a model entry without a function call, and otherwise the last user
  entry without a function response (0 if there is none). The fraction is a binary64
  value, and the total weight is below \<open>2 ^ 53\<close>, where sums of lengths are exact.
\<close>

theorem findCompressSplitPoint_refines_spec:
  assumes "0 < f" "f < 1" "isDouble (Fin f)" "totalWeight jsonLength contents < 2 ^ 53"
  shows "findCompressSplitPoint jsonLength contents (Fin f)
           = Inr (specSplitPoint jsonLength contents (doubleTarget jsonLength contents f))"
proof -
  let ?zs = "zip contents (map jsonLength contents)"
  let ?total = "sum_list (map jsonLength contents)"
  let ?t = "roundDouble (real ?total * f)"
  have len: "length ?zs = length contents" by simp
  have findE: "find (reachedAt ?t ?zs 0) [0..<length ?zs]
                 = find (reachesTarget jsonLength contents ?t) [0..<length contents]"
    unfolding len
    by (rule find_cong [OF refl])
       (simp add: reachedAt_def reachesTarget_def weightBefore_def num_ge_def
          zip_map_take_snd del: take_zip)
  have filterE: "filter (\<lambda>k. isSplitCandidate (fst (?zs ! k))) [0..<length ?zs]
                 = filter (\<lambda>i. isSplitCandidate (contents ! i)) [0..<length contents]"
    unfolding len by (rule filter_cong [OF refl]) simp
  have guard: "\<not> (num_le (Fin f) (Fin 0) \<or> num_ge (Fin f) (Fin 1))"
    using assms(1,2) by (simp add: num_ge_def)
  have "findCompressSplitPoint jsonLength contents (Fin f) =
          (case splitLoop ?t ?zs 0 0 0 of
             Return i \<Rightarrow> Inr i
           | Fallthrough lastSplitPoint \<Rightarrow>
               (if contents \<noteq> [] \<and> role (last contents) = Some ''model''
                   \<and> \<not> hasFunctionCall (last contents)
                then Inr (length contents)
                else Inr lastSplitPoint))"
    using guard by (simp add: findCompressSplitPoint_def Let_def foldl_plus_sum)
  also have "\<dots> = Inr (specSplitPoint jsonLength contents ?t)"
    unfolding splitLoop_char findE filterE specSplitPoint_def lastCandidate_def
    by (simp split: option.splits list.splits)
  finally show ?thesis by (simp add: doubleTarget_def totalWeight_def)
qed

lemma roundingHistory_lengths:
  "map jsonLengthOf roundingHistory = [52, 38, 40]"
  by (simp add: roundingHistory_def example_defs json_defs)

lemma doubleTarget_roundingHistory:
  "doubleTarget jsonLengthOf roundingHistory (3602879701896397 / 2 ^ 53) = Fin 52"
  by (simp add: doubleTarget_def totalWeight_def roundingHistory_lengths round_defs)

lemma exactTarget_roundingHistory:
  "exactTarget jsonLengthOf roundingHistory (3602879701896397 / 2 ^ 53)
     = Fin (52 + 13 / 2 ^ 52)"
  by (simp add: exactTarget_def totalWeight_def roundingHistory_lengths)

lemma roundingHistory_run:
  "findCompressSplitPoint jsonLengthOf roundingHistory (Fin (3602879701896397 / 2 ^ 53)) = Inr 1"
  by (simp add: split_defs round_defs roundingHistory_def example_defs json_defs)

theorem findCompressSplitPoint_refines_spec_witness:
  "isDouble (Fin (3602879701896397 / 2 ^ 53))
   \<and> totalWeight jsonLengthOf roundingHistory = 130
   \<and> doubleTarget jsonLengthOf roundingHistory (3602879701896397 / 2 ^ 53) = Fin 52
   \<and> findCompressSplitPoint jsonLengthOf roundingHistory (Fin (3602879701896397 / 2 ^ 53))
       = Inr 1
   \<and> specSplitPoint jsonLengthOf roundingHistory (Fin 52) = 1"
proof -
  have d: "isDouble (Fin (3602879701896397 / 2 ^ 53))" by (simp add: round_defs)
  have t: "totalWeight jsonLengthOf roundingHistory = 130"
    by (simp add: totalWeight_def roundingHistory_lengths)
  have "findCompressSplitPoint jsonLengthOf roundingHistory (Fin (3602879701896397 / 2 ^ 53))
          = Inr (specSplitPoint jsonLengthOf roundingHistory
                   (doubleTarget jsonLengthOf roundingHistory (3602879701896397 / 2 ^ 53)))"
    using d t by (intro findCompressSplitPoint_refines_spec) simp_all
  then have "findCompressSplitPoint jsonLengthOf roundingHistory
          (Fin (3602879701896397 / 2 ^ 53))
        = Inr (specSplitPoint jsonLengthOf roundingHistory (Fin 52))"
    by (simp only: doubleTarget_roundingHistory)
  with roundingHistory_run have "specSplitPoint jsonLengthOf roundingHistory (Fin 52) = 1"
    by simp
  with roundingHistory_run d t doubleTarget_roundingHistory show ?thesis by simp
qed

text \<open>
  The claim as stated compares with fraction times total weight. Read as the product of
  the two numbers, that is not what the program compares with. The history below has
  weights 52, 38 and 40 and the fraction is the binary64 value of \<^verbatim>\<open>0.4\<close>, a little
  above four tenths: the product is a little above 52 and rounds to 52. The program
  returns index 1, before which the weight is 52, less than the product; the first index
  as the claim words it is 3.
\<close>

theorem findCompressSplitPoint_rounded_target:
  "isDouble (Fin (3602879701896397 / 2 ^ 53))
   \<and> findCompressSplitPoint jsonLengthOf roundingHistory (Fin (3602879701896397 / 2 ^ 53))
       = Inr 1
   \<and> real (weightBefore jsonLengthOf roundingHistory 1)
       < real (totalWeight jsonLengthOf roundingHistory) * (3602879701896397 / 2 ^ 53)
   \<and> specSplitPoint jsonLengthOf roundingHistory
         (exactTarget jsonLengthOf roundingHistory (3602879701896397 / 2 ^ 53)) = 3"
proof -
  have d: "isDouble (Fin (3602879701896397 / 2 ^ 53))" by (simp add: round_defs)
  have w: "weightBefore jsonLengthOf roundingHistory 1 = 52"
    by (simp add: weightBefore_def roundingHistory_def example_defs json_defs)
  have t: "totalWeight jsonLengthOf roundingHistory = 130"
    by (simp add: totalWeight_def roundingHistory_lengths)
  have s: "specSplitPoint jsonLengthOf roundingHistory
         (exactTarget jsonLengthOf roundingHistory (3602879701896397 / 2 ^ 53)) = 3"
    unfolding exactTarget_roundingHistory
    by (simp add: specSplitPoint_def reachesTarget_def weightBefore_def lastCandidate_def
          isSplitCandidate_def hasFunctionResponse_def hasFunctionCall_def
          roundingHistory_def example_defs json_defs upt_conv_Cons)
  from d roundingHistory_run w t s show ?thesis by simp
qed

text \<open>
  C10. \<^verbatim>\<open>findCompressSplitPoint\<close> throws if and only if its fraction is at most 0 or
  at least 1 (as JavaScript compares numbers, so not-a-number passes); for every
  fraction strictly between 0 and 1 it returns, and whenever it returns the index lies
  between 0 and the length of the list.
\<close>

theorem findCompressSplitPoint_throws_iff:
  "((\<exists>e. findCompressSplitPoint jsonLength contents fraction = Inl e)
      \<longleftrightarrow> (num_le fraction (Fin 0) \<or> num_ge fraction (Fin 1)))
   \<and> (\<forall>i. findCompressSplitPoint jsonLength contents fraction = Inr i
          \<longrightarrow> i \<le> length contents)
   \<and> (\<forall>f. fraction = Fin f \<and> 0 < f \<and> f < 1
          \<longrightarrow> (\<exists>i\<le>length contents.
                 findCompressSplitPoint jsonLength contents fraction = Inr i))"
proof (intro conjI allI impI)
  show "(\<exists>e. findCompressSplitPoint jsonLength contents fraction = Inl e)
          \<longleftrightarrow> (num_le fraction (Fin 0) \<or> num_ge fraction (Fin 1))"
    by (rule findCompressSplitPoint_Inl)
next
  fix i assume "findCompressSplitPoint jsonLength contents fraction = Inr i"
  from findCompressSplitPoint_index [OF this] show "i \<le> length contents" by auto
next
  fix f assume f: "fraction = Fin f \<and> 0 < f \<and> f < 1"
  then have "\<not> (num_le fraction (Fin 0) \<or> num_ge fraction (Fin 1))"
    by (simp add: num_ge_def)
  then have "\<nexists>e. findCompressSplitPoint jsonLength contents fraction = Inl e"
    by (simp add: findCompressSplitPoint_Inl)
  then obtain i where i: "findCompressSplitPoint jsonLength contents fraction = Inr i"
    by (cases "findCompressSplitPoint jsonLength contents fraction") auto
  from findCompressSplitPoint_index [OF i] have "i \<le> length contents" by auto
  with i show "\<exists>i\<le>length contents. findCompressSplitPoint jsonLength contents fraction = Inr i"
    by blast
qed

theorem findCompressSplitPoint_throws_iff_witness:
  "(\<exists>e. findCompressSplitPoint jsonLengthOf toolHistory (Fin 1) = Inl e)
   \<and> (\<exists>e. findCompressSplitPoint jsonLengthOf toolHistory (Fin 0) = Inl e)
   \<and> (\<nexists>e. findCompressSplitPoint jsonLengthOf toolHistory NaN = Inl e)
   \<and> (\<exists>i\<le>length toolHistory.
         findCompressSplitPoint jsonLengthOf toolHistory (Fin (7 / 10)) = Inr i)"
proof -
  have a: "\<exists>e. findCompressSplitPoint jsonLengthOf toolHistory (Fin 1) = Inl e"
    using findCompressSplitPoint_throws_iff [of jsonLengthOf toolHistory "Fin 1"]
    by (simp add: num_ge_def)
  have b: "\<exists>e. findCompressSplitPoint jsonLengthOf toolHistory (Fin 0) = Inl e"
    using findCompressSplitPoint_throws_iff [of jsonLengthOf toolHistory "Fin 0"]
    by (simp add: num_ge_def)
  have c: "\<nexists>e. findCompressSplitPoint jsonLengthOf toolHistory NaN = Inl e"
    using findCompressSplitPoint_throws_iff [of jsonLengthOf toolHistory NaN]
    by (simp add: num_ge_def)
  have "Fin (7 / 10) = Fin (7 / 10) \<and> (0::real) < 7 / 10 \<and> (7::real) / 10 < 1"
    by simp
  with findCompressSplitPoint_throws_iff [of jsonLengthOf toolHistory "Fin (7 / 10)"]
  have d: "\<exists>i\<le>length toolHistory.
             findCompressSplitPoint jsonLengthOf toolHistory (Fin (7 / 10)) = Inr i"
    by blast
  from a b c d show ?thesis by blast
qed

section \<open>Compression: claims\<close>




lemma inflated_run:
  "tryCompressChat shrunkHost inflatedClient ''p'' False
     = (Inr \<lparr>originalTokenCount = 40, newTokenCount = 41,
              compressionStatus = COMPRESSION_FAILED_INFLATED_TOKEN_COUNT\<rparr>,
        inflatedClient\<lparr>hasFailedCompressionAttempt := True,
          log := [SummaryCall ''gemini-2.5-pro'' summaryRequest, LogChatCompression 40 41]\<rparr>)"
  by (simp add: compress_defs split_defs round_defs example_defs json_defs inflatedClient_def
        summaryRequest_def)




lemma rebuildChat_result:
  assumes "rebuildChat h s prompt_id force model n xs ys = (Inr info, s')"
  shows "\<exists>summary instruction.
        newTokenCount info = estimateTokens h (rebuiltFrom h summary ys)
      \<and> originalTokenCount info = n
      \<and> (if n < newTokenCount info
          then compressionStatus info = COMPRESSION_FAILED_INFLATED_TOKEN_COUNT
             \<and> chat s' = chat s \<and> lastPromptTokenCount s' = lastPromptTokenCount s
             \<and> hasFailedCompressionAttempt s' = (\<not> force)
          else compressionStatus info = COMPRESSED
             \<and> chat s' = Some \<lparr>history = rebuiltFrom h summary ys,
                                systemInstruction = instruction\<rparr>
             \<and> lastPromptTokenCount s' = newTokenCount info)"
proof -
  let ?request = "xs @ [textContent ''user''
      ''First, reason in your scratchpad. Then, generate the <state_snapshot>.'']"
  from assms obtain r where r: "generateSummary h model ?request = Inr r"
    by (cases "generateSummary h model ?request") (auto simp: rebuildChat_def Let_def)
  from assms r obtain instruction where
    i: "getCoreSystemPrompt h (getUserMemory h) = Inr instruction"
    by (cases "getCoreSystemPrompt h (getUserMemory h)")
       (auto simp: rebuildChat_def startChat_def Let_def)
  let ?summary = "case r of None \<Rightarrow> [] | Some t \<Rightarrow> t"
  from assms r i show ?thesis
    by (intro exI [of _ ?summary] exI [of _ instruction])
       (auto simp: rebuildChat_def startChat_def record_action_def rebuiltFrom_def Let_def
             split: if_splits)
qed

lemma tryCompressChat_cases:
  assumes "tryCompressChat h s prompt_id force = (Inr info, s')"
  shows "(compressionStatus info = NOOP \<and> s' = s \<and> newTokenCount info = originalTokenCount info)
       \<or> (\<exists>model xs ys. rebuildChat h s prompt_id force model (lastPromptTokenCount s) xs ys
             = (Inr info, s'))"
  using assms
  by (auto simp: tryCompressChat_def Let_def noopInfo_def
           split: option.splits if_splits sum.splits)

text \<open>
  C3 (amended). For every compression attempt that reaches the rebuild step (it returns
  with a status other than NOOP): the new token count is the estimate of the rebuilt
  history (setup entry, summary, acknowledgement, retained tail) and the original count
  is the tracked counter. If the new count is strictly greater than the original, the
  status is COMPRESSION_FAILED_INFLATED_TOKEN_COUNT, the chat and the tracked token
  counter are unchanged, and the failed-attempt flag holds exactly when the attempt was
  not forced. Otherwise, equality included, the status is COMPRESSED, the rebuilt history
  becomes the chat and the counter is set to the new count.
\<close>

theorem tryCompressChat_inflation_guard:
  assumes "tryCompressChat h s prompt_id force = (Inr info, s')"
    and "compressionStatus info \<noteq> NOOP"
  shows "\<exists>summary kept instruction.
        newTokenCount info = estimateTokens h (rebuiltFrom h summary kept)
      \<and> originalTokenCount info = lastPromptTokenCount s
      \<and> (if originalTokenCount info < newTokenCount info
          then compressionStatus info = COMPRESSION_FAILED_INFLATED_TOKEN_COUNT
             \<and> chat s' = chat s \<and> lastPromptTokenCount s' = lastPromptTokenCount s
             \<and> hasFailedCompressionAttempt s' = (\<not> force)
          else compressionStatus info = COMPRESSED
             \<and> chat s' = Some \<lparr>history = rebuiltFrom h summary kept,
                                systemInstruction = instruction\<rparr>
             \<and> lastPromptTokenCount s' = newTokenCount info)"
proof -
  from tryCompressChat_cases [OF assms(1)] assms(2)
  obtain model xs ys where
    "rebuildChat h s prompt_id force model (lastPromptTokenCount s) xs ys = (Inr info, s')"
    by auto
  from rebuildChat_result [OF this] show ?thesis by metis
qed

theorem tryCompressChat_inflation_guard_witness:
  "compressionStatus (projr (fst (tryCompressChat shrunkHost inflatedClient ''p'' False)))
     = COMPRESSION_FAILED_INFLATED_TOKEN_COUNT
   \<and> chat (snd (tryCompressChat shrunkHost inflatedClient ''p'' False)) = chat inflatedClient
   \<and> hasFailedCompressionAttempt (snd (tryCompressChat shrunkHost inflatedClient ''p'' False))"
proof -
  let ?info = "\<lparr>originalTokenCount = 40, newTokenCount = 41,
              compressionStatus = COMPRESSION_FAILED_INFLATED_TOKEN_COUNT\<rparr>"
  have "compressionStatus ?info \<noteq> NOOP" by simp
  from tryCompressChat_inflation_guard [OF inflated_run this]
  show ?thesis by (simp add: inflated_run)
qed

text \<open>
  The claim as stated asks for the failure at equal counts too. With the tracked counter
  at 41 and a rebuilt history estimated at 41 tokens the attempt is COMPRESSED and the
  rebuilt history replaces the chat: the source tests
  \<^verbatim>\<open>newTokenCount > originalTokenCount\<close>.
\<close>

theorem tryCompressChat_equal_count_compresses:
  "tryCompressChat shrunkHost levelClient ''p'' False
     = (Inr \<lparr>originalTokenCount = 41, newTokenCount = 41, compressionStatus = COMPRESSED\<rparr>,
        levelClient\<lparr>chat := Some \<lparr>history = rebuiltHistory, systemInstruction = ''system''\<rparr>,
          log := [SummaryCall ''gemini-2.5-pro'' summaryRequest, LogChatCompression 41 41]\<rparr>)
   \<and> estimateTokens shrunkHost rebuiltHistory = 41
   \<and> lastPromptTokenCount levelClient = 41"
  by (simp add: compress_defs split_defs round_defs example_defs json_defs levelClient_def
        summaryRequest_def rebuiltHistory_def)

section \<open>Editor context: claims\<close>

lemmas ide_defs = getIdeContextParts_def computeChanges_def activeFileChanges_def
  cursorDiffers_def emptyChanges_def noChanges_def mapKeys_def filesOf_def orEmpty_def
  orUndefined_def activeFileDataOf_def fullContextData_def

lemma activeFileChanges_same_path:
  assumes "path l = path c"
  shows "activeFileChanges (Some l) (Some c) ch =
     ch\<lparr>cursorMoved :=
           (case cursor c of
              None \<Rightarrow> cursorMoved ch
            | Some cc \<Rightarrow> if cursorDiffers (cursor l) cc then Some (path c, cc)
                         else cursorMoved ch),
        selectionChanged :=
           (if orEmpty (selectedText l) \<noteq> orEmpty (selectedText c)
            then Some (path c, orEmpty (selectedText c))
            else selectionChanged ch)\<rparr>"
  using assms by (simp add: activeFileChanges_def Let_def split: option.splits)

text \<open>
  C9 (amended). In delta mode (the store holds a snapshot, a snapshot was sent before,
  full context is not forced), when both snapshots have an active file with the same
  path: the changes hold a cursor-moved entry exactly when the current snapshot has a
  cursor and the last one had none or had another line or character; they hold a
  selection-changed entry exactly when the selected texts differ, an absent selection
  read as the empty text; and the parts are empty when the changes are, and otherwise
  the header, one fenced block with the JSON text of the changes.
\<close>

theorem getIdeContextParts_delta_same_active_file:
  assumes "ideContextStore h = Some current"
    and "lastSentIdeContext s = Some lastSent"
    and "find isActive (filesOf lastSent) = Some l"
    and "find isActive (filesOf current) = Some c"
    and "path l = path c"
  shows "cursorMoved (computeChanges lastSent current) =
           (case cursor c of
              None \<Rightarrow> None
            | Some cc \<Rightarrow> if cursorDiffers (cursor l) cc then Some (path c, cc) else None)
       \<and> selectionChanged (computeChanges lastSent current) =
           (if orEmpty (selectedText l) \<noteq> orEmpty (selectedText c)
            then Some (path c, orEmpty (selectedText c)) else None)
       \<and> getIdeContextParts h s False =
           (if noChanges (computeChanges lastSent current) then []
            else [deltaHeader, ''```json'', stringifyDelta h (computeChanges lastSent current),
                  ''```''],
            Some current)"
  using assms
  by (simp add: computeChanges_def Let_def activeFileChanges_same_path emptyChanges_def
        getIdeContextParts_def deltaHeader_def split: option.splits)

theorem getIdeContextParts_delta_same_active_file_witness:
  "cursorMoved (computeChanges snapshotWithCursor snapshotMoved)
     = Some (''a.ts'', \<lparr>line = 2, character = 1\<rparr>)
   \<and> selectionChanged (computeChanges snapshotWithCursor snapshotMoved) = Some (''a.ts'', ''x'')
   \<and> fst (getIdeContextParts (quietHost\<lparr>ideContextStore := Some snapshotMoved\<rparr>)
          ((freshClient [])\<lparr>lastSentIdeContext := Some snapshotWithCursor\<rparr>) False)
       = [deltaHeader, ''```json'', ''{}'', ''```'']"
proof -
  let ?h = "quietHost\<lparr>ideContextStore := Some snapshotMoved\<rparr>"
  let ?s = "(freshClient [])\<lparr>lastSentIdeContext := Some snapshotWithCursor\<rparr>"
  let ?f = "\<lambda>cur sel. \<lparr>path = ''a.ts'', isActive = True, cursor = cur, selectedText = sel\<rparr>"
  have 1: "ideContextStore ?h = Some snapshotMoved" by simp
  have 2: "lastSentIdeContext ?s = Some snapshotWithCursor" by simp
  have 3: "find isActive (filesOf snapshotWithCursor)
             = Some (?f (Some \<lparr>line = 1, character = 1\<rparr>) None)"
    by (simp add: snapshotWithCursor_def filesOf_def)
  have 4: "find isActive (filesOf snapshotMoved)
             = Some (?f (Some \<lparr>line = 2, character = 1\<rparr>) (Some ''x''))"
    by (simp add: snapshotMoved_def filesOf_def)
  have 5: "path (?f (Some \<lparr>line = 1, character = 1\<rparr>) None)
             = path (?f (Some \<lparr>line = 2, character = 1\<rparr>) (Some ''x''))" by simp
  from getIdeContextParts_delta_same_active_file [OF 1 2 3 4 5]
  show ?thesis
    by (simp add: cursorDiffers_def orEmpty_def noChanges_def quietHost_def)
qed

text \<open>
  The claim as stated has a cursor-moved change whenever the cursor differs. A cursor
  that is there in the last snapshot and absent in the current one differs, and nothing
  is emitted: the source reports a move only under \<^verbatim>\<open>currentCursor &&\<close>.
\<close>

theorem getIdeContextParts_cursor_removed_silent:
  "cursor (the (find isActive (filesOf snapshotWithCursor))) = Some \<lparr>line = 1, character = 1\<rparr>
   \<and> cursor (the (find isActive (filesOf snapshotWithoutCursor))) = None
   \<and> path (the (find isActive (filesOf snapshotWithCursor)))
       = path (the (find isActive (filesOf snapshotWithoutCursor)))
   \<and> cursorMoved (computeChanges snapshotWithCursor snapshotWithoutCursor) = None
   \<and> getIdeContextParts (quietHost\<lparr>ideContextStore := Some snapshotWithoutCursor\<rparr>)
        ((freshClient [])\<lparr>lastSentIdeContext := Some snapshotWithCursor\<rparr>) False
       = ([], Some snapshotWithoutCursor)"
  by (simp add: ide_defs snapshotWithCursor_def snapshotWithoutCursor_def quietHost_def
        freshClient_def Let_def)

section \<open>One invocation: the phases\<close>

lemma loggedOnly_refl: "loggedOnly A s s"
  by (simp add: loggedOnly_def)

lemma loggedOnly_trans:
  "loggedOnly A s t \<Longrightarrow> loggedOnly A t u \<Longrightarrow> loggedOnly A s u"
  by (auto simp: loggedOnly_def)

lemma loggedOnly_mono:
  "loggedOnly A s t \<Longrightarrow> (\<And>a. A a \<Longrightarrow> B a) \<Longrightarrow> loggedOnly B s t"
  by (auto simp: loggedOnly_def list_all_iff)

lemma loggedOnly_record: "A a \<Longrightarrow> loggedOnly A s (record_action a s)"
  by (simp add: loggedOnly_def record_action_def)

lemma loggedOnly_same_log: "log t = log s \<Longrightarrow> loggedOnly A s t"
  by (simp add: loggedOnly_def)

lemma loggedOnly_filter:
  "loggedOnly A s t \<Longrightarrow> (\<And>a. A a \<Longrightarrow> \<not> P a) \<Longrightarrow> filter P (log t) = filter P (log s)"
  by (auto simp: loggedOnly_def list_all_iff filter_empty_conv)

lemma tryCompressChat_log:
  "tryCompressChat h s prompt_id force = (r, s') \<Longrightarrow> loggedOnly isCompressionAction s s'"
  by (auto simp: tryCompressChat_def rebuildChat_def startChat_def Let_def loggedOnly_def
        record_action_def split: option.splits if_splits sum.splits prod.splits)

lemma tryCompressChat_frame:
  "tryCompressChat h s prompt_id force = (r, s') \<Longrightarrow>
     lastPromptId s' = lastPromptId s \<and> currentSequenceModel s' = currentSequenceModel s
     \<and> sessionTurnCount s' = sessionTurnCount s"
  by (auto simp: tryCompressChat_def rebuildChat_def startChat_def Let_def
        record_action_def split: option.splits if_splits sum.splits prod.splits)


lemma refreshSystemInstruction_frame:
  "refreshSystemInstruction h s = (r, s') \<Longrightarrow>
     log s' = log s \<and> lastPromptId s' = lastPromptId s
     \<and> currentSequenceModel s' = currentSequenceModel s
     \<and> sessionTurnCount s' = sessionTurnCount s
     \<and> map_option history (chat s') = map_option history (chat s)"
  by (auto simp: refreshSystemInstruction_def Let_def split: if_splits sum.splits option.splits)

lemma injectIdeContext_frame:
  "lastPromptId (injectIdeContext h s ch) = lastPromptId s
   \<and> currentSequenceModel (injectIdeContext h s ch) = currentSequenceModel s
   \<and> sessionTurnCount (injectIdeContext h s ch) = sessionTurnCount s
   \<and> loggedOnly isAddHistory s (injectIdeContext h s ch)"
  by (auto simp: injectIdeContext_def addHistory_def record_action_def loggedOnly_def
        split: prod.splits)


lemma consumeStream_InvalidStream:
  "consumeStream h retry fed stream = (yielded, exit) \<Longrightarrow> getContinueOnFailedApiCall h \<Longrightarrow>
     InvalidStream \<in> set yielded \<Longrightarrow> exit = (if retry then RetryFailed else Retry)"
proof (induction stream arbitrary: fed yielded)
  case Nil
  then show ?case by simp
next
  case (Cons e es)
  then show ?case
    by (auto split: if_splits prod.splits)
qed

lemma consumeStream_Retry:
  "consumeStream h retry fed stream = (yielded, exit) \<Longrightarrow>
     (exit = Retry \<longrightarrow> \<not> retry \<and> getContinueOnFailedApiCall h \<and> yielded \<noteq> [] \<and> last yielded = InvalidStream)
   \<and> (exit = RetryFailed \<longrightarrow> retry \<and> getContinueOnFailedApiCall h \<and> yielded \<noteq> [] \<and> last yielded = InvalidStream)"
proof (induction stream arbitrary: fed yielded)
  case Nil
  then show ?case by simp
next
  case (Cons e es)
  then show ?case
    by (auto split: if_splits prod.splits)
qed

lemma continuation_frame:
  "continuation h s prompt_id m request hist b = (ctl, s') \<Longrightarrow>
     loggedOnly isTurnAction s s' \<and> lastPromptId s' = lastPromptId s
     \<and> currentSequenceModel s' = currentSequenceModel s
     \<and> sessionTurnCount s' = sessionTurnCount s
     \<and> (\<forall>r t x. ctl = Continue r t x \<longrightarrow> r = [textPart ''Please continue.''] \<and> t = b - 1 \<and> \<not> x)"
  by (auto simp: continuation_def Let_def loggedOnly_def record_action_def
        split: if_splits option.splits)

lemma selectModel_cases:
  assumes "selectModel h s hist request = (m, s')"
  shows "(truthy (currentSequenceModel s) \<and> currentSequenceModel s = Some m \<and> s' = s)
       \<or> (\<not> truthy (currentSequenceModel s) \<and> m = route h (curated h hist) request
           \<and> s' = (record_action (RouterCall (curated h hist) request) s)
                    \<lparr>currentSequenceModel := Some m\<rparr>)"
  using assms
  by (auto simp: selectModel_def Let_def truthy_def split: if_splits option.splits)

lemma runTurn_result:
  assumes "runTurn h s ch request prompt_id b retry m emitted = (evs, ctl, s')"
  shows "\<exists>yielded exit xs.
           consumeStream h retry [] (turnEvents h m request (history ch)) = (yielded, exit)
         \<and> evs = emitted @ yielded
         \<and> log s' = log s @ ModelCall m request # xs \<and> list_all isTurnAction xs
         \<and> lastPromptId s' = lastPromptId s
         \<and> currentSequenceModel s' = currentSequenceModel s
         \<and> sessionTurnCount s' = sessionTurnCount s
         \<and> (case exit of
               LoopAbort \<Rightarrow> ctl = Done
             | RetryFailed \<Rightarrow> ctl = Done
                 \<and> xs = [LogContentRetryFailure 4 ''FAILED_AFTER_PROMPT_INJECTION'' m]
             | Retry \<Rightarrow> ctl = Continue [textPart ''System: Please continue.''] (b - 1) True
                 \<and> xs = []
             | ErrorStop \<Rightarrow> ctl = Done
             | Exhausted \<Rightarrow>
                 (\<forall>r t x. ctl = Continue r t x \<longrightarrow>
                    r = [textPart ''Please continue.''] \<and> t = b - 1 \<and> \<not> x))"
proof -
  obtain yielded exit where
    c: "consumeStream h retry [] (turnEvents h m request (history ch)) = (yielded, exit)"
    by (cases "consumeStream h retry [] (turnEvents h m request (history ch))")
  let ?s2 = "(record_action (ModelCall m request) s)\<lparr>chat := Some (ch\<lparr>history :=
               turnHistory h m request (history ch) (length yielded)\<rparr>)\<rparr>"
  show ?thesis
  proof (cases exit)
    case Exhausted
    obtain c2 s3 where k: "continuation h ?s2 prompt_id m request (history ch) b = (c2, s3)"
      by (cases "continuation h ?s2 prompt_id m request (history ch) b")
    from continuation_frame [OF k] obtain ys where
      ys: "log s3 = log ?s2 @ ys" "list_all isTurnAction ys"
      and fr: "lastPromptId s3 = lastPromptId ?s2"
        "currentSequenceModel s3 = currentSequenceModel ?s2"
        "sessionTurnCount s3 = sessionTurnCount ?s2"
      and ct: "\<forall>r t x. c2 = Continue r t x \<longrightarrow> r = [textPart ''Please continue.''] \<and> t = b - 1 \<and> \<not> x"
      by (auto simp: loggedOnly_def)
    from assms c Exhausted k have "evs = emitted @ yielded" "ctl = c2" "s' = s3"
      by (simp_all add: runTurn_def Let_def)
    with c Exhausted ys fr ct show ?thesis
      by (intro exI [of _ yielded] exI [of _ exit] exI [of _ ys])
         (auto simp: record_action_def)
  qed (use assms c in \<open>auto simp: runTurn_def Let_def record_action_def\<close>)
qed

lemma prepareAndRun_cases:
  assumes "prepareAndRun h s request prompt_id b retry emitted = (evs, ctl, s')"
  obtains
    (stopped) "evs = emitted \<and> (\<exists>e. ctl = Raise e) \<or> evs = emitted @ [LoopDetected] \<and> ctl = Done"
      "loggedOnly isAddHistory s s'" "lastPromptId s' = lastPromptId s"
      "currentSequenceModel s' = currentSequenceModel s"
      "sessionTurnCount s' = sessionTurnCount s"
  | (ran) s1 ch s2 ch2 m s3 where
      "refreshSystemInstruction h s = (None, s1)" "chat s1 = Some ch"
      "s2 = injectIdeContext h s1 ch" "chat s2 = Some ch2" "\<not> turnStarted h"
      "selectModel h s2 (history ch2) request = (m, s3)"
      "runTurn h s3 ch2 request prompt_id b retry m emitted = (evs, ctl, s')"
proof -
  obtain r s1 where rf: "refreshSystemInstruction h s = (r, s1)"
    by (cases "refreshSystemInstruction h s")
  note fr1 = refreshSystemInstruction_frame [OF rf]
  show thesis
  proof (cases r)
    case (Some e)
    with assms rf have "evs = emitted" "ctl = Raise e" "s' = s1"
      by (simp_all add: prepareAndRun_def)
    with fr1 show thesis by (intro stopped) (auto intro: loggedOnly_same_log)
  next
    case None
    show thesis
    proof (cases "chat s1")
      case n1: None
      with assms rf None have "evs = emitted" "ctl = Raise (JsError ''Chat not initialized'')"
          "s' = s1"
        by (simp_all add: prepareAndRun_def)
      with fr1 show thesis by (intro stopped) (auto intro: loggedOnly_same_log)
    next
      case (Some ch)
      let ?s2 = "injectIdeContext h s1 ch"
      note fr2 = injectIdeContext_frame [of h s1 ch]
      have lo: "loggedOnly isAddHistory s ?s2"
        using fr1 fr2 by (auto simp: loggedOnly_def)
      show thesis
      proof (cases "chat ?s2")
        case n2: None
        with assms rf None Some have "evs = emitted"
          "ctl = Raise (JsError ''Chat not initialized'')" "s' = ?s2"
          by (simp_all add: prepareAndRun_def Let_def)
        with fr1 fr2 lo show thesis by (intro stopped) auto
      next
        case s2: (Some ch2)
        show thesis
        proof (cases "turnStarted h")
          case True
          with assms rf None Some s2 have "evs = emitted @ [LoopDetected]" "ctl = Done" "s' = ?s2"
            by (simp_all add: prepareAndRun_def Let_def)
          with fr1 fr2 lo show thesis by (intro stopped) auto
        next
          case False
          obtain m s3 where sm: "selectModel h ?s2 (history ch2) request = (m, s3)"
            by (cases "selectModel h ?s2 (history ch2) request")
          with assms rf None Some s2 False
          have "runTurn h s3 ch2 request prompt_id b retry m emitted = (evs, ctl, s')"
            by (simp add: prepareAndRun_def Let_def)
          with rf None Some s2 False sm show thesis by (intro ran [of s1 ch ?s2 ch2 m s3]) auto
        qed
      qed
    qed
  qed
qed

lemma beginTurn_frame:
  "lastPromptId (beginTurn s prompt_id) = prompt_id
   \<and> sessionTurnCount (beginTurn s prompt_id) = sessionTurnCount s + 1
   \<and> chat (beginTurn s prompt_id) = chat s
   \<and> lastPromptTokenCount (beginTurn s prompt_id) = lastPromptTokenCount s
   \<and> currentSequenceModel (beginTurn s prompt_id)
       = (if lastPromptId s = prompt_id then currentSequenceModel s else None)
   \<and> log (beginTurn s prompt_id)
       = (if lastPromptId s = prompt_id then log s else log s @ [LoopDetectorReset prompt_id])"
  by (simp add: beginTurn_def sequenceReset_def record_action_def Let_def)

lemma sendMessageStreamTurn_unfold:
  "sendMessageStreamTurn h s request prompt_id turns retry =
     (if 0 < getMaxSessionTurns h \<and> getMaxSessionTurns h < int (sessionTurnCount s) + 1
      then returnTurn [MaxSessionTurns] (beginTurn s prompt_id)
      else if min turns MAX_TURNS = 0 then returnTurn [] (beginTurn s prompt_id)
      else if overflows h (beginTurn s prompt_id) request
      then returnTurn
         [ContextWindowWillOverflow (int (requestLength h request div 4))
            (tokenLimit h (getEffectiveModelForCurrentTurn h (beginTurn s prompt_id))
               - lastPromptTokenCount (beginTurn s prompt_id))]
         (beginTurn s prompt_id)
      else (case tryCompressChat h (beginTurn s prompt_id) prompt_id False of
              (Inl e, s3) \<Rightarrow> ([], Raise e, s3)
            | (Inr compressed, s3) \<Rightarrow>
                prepareAndRun h s3 request prompt_id (min turns MAX_TURNS) retry
                  (if compressionStatus compressed = COMPRESSED
                   then [ChatCompressed compressed] else [])))"
  by (simp add: sendMessageStreamTurn_def Let_def overflows_def beginTurn_frame)

lemma sendMessageStreamTurn_cases:
  assumes "sendMessageStreamTurn h s request prompt_id turns retry = (evs, ctl, s')"
  obtains
    (maxTurns) "0 < getMaxSessionTurns h" "getMaxSessionTurns h < int (sessionTurnCount s) + 1"
      "returnTurn [MaxSessionTurns] (beginTurn s prompt_id) = (evs, ctl, s')"
  | (zero) "\<not> (0 < getMaxSessionTurns h \<and> getMaxSessionTurns h < int (sessionTurnCount s) + 1)"
      "min turns MAX_TURNS = 0" "returnTurn [] (beginTurn s prompt_id) = (evs, ctl, s')"
  | (overflow) "\<not> (0 < getMaxSessionTurns h \<and> getMaxSessionTurns h < int (sessionTurnCount s) + 1)"
      "min turns MAX_TURNS \<noteq> 0" "overflows h (beginTurn s prompt_id) request"
      "returnTurn
         [ContextWindowWillOverflow (int (requestLength h request div 4))
            (tokenLimit h (getEffectiveModelForCurrentTurn h (beginTurn s prompt_id))
               - lastPromptTokenCount (beginTurn s prompt_id))]
         (beginTurn s prompt_id) = (evs, ctl, s')"
  | (thrown) e where
      "\<not> (0 < getMaxSessionTurns h \<and> getMaxSessionTurns h < int (sessionTurnCount s) + 1)"
      "min turns MAX_TURNS \<noteq> 0" "\<not> overflows h (beginTurn s prompt_id) request"
      "tryCompressChat h (beginTurn s prompt_id) prompt_id False = (Inl e, s')"
      "evs = []" "ctl = Raise e"
  | (proceed) compressed s3 where
      "\<not> (0 < getMaxSessionTurns h \<and> getMaxSessionTurns h < int (sessionTurnCount s) + 1)"
      "min turns MAX_TURNS \<noteq> 0" "\<not> overflows h (beginTurn s prompt_id) request"
      "tryCompressChat h (beginTurn s prompt_id) prompt_id False = (Inr compressed, s3)"
      "prepareAndRun h s3 request prompt_id (min turns MAX_TURNS) retry
         (if compressionStatus compressed = COMPRESSED then [ChatCompressed compressed] else [])
        = (evs, ctl, s')"
proof -
  let ?s2 = "beginTurn s prompt_id"
  note eq = assms [unfolded sendMessageStreamTurn_unfold]
  show thesis
  proof (cases "0 < getMaxSessionTurns h \<and> getMaxSessionTurns h < int (sessionTurnCount s) + 1")
    case True
    from eq have "returnTurn [MaxSessionTurns] ?s2 = (evs, ctl, s')"
      by (simp only: True if_True simp_thms)
    with True show thesis by (intro maxTurns) simp_all
  next
    case nmax: False
    show thesis
    proof (cases "min turns MAX_TURNS = 0")
      case True
      from eq have "returnTurn [] ?s2 = (evs, ctl, s')"
        by (simp only: nmax True if_True if_False simp_thms)
      with nmax True show thesis by (intro zero)
    next
      case nz: False
      show thesis
      proof (cases "overflows h ?s2 request")
        case True
        from eq have "returnTurn
           [ContextWindowWillOverflow (int (requestLength h request div 4))
              (tokenLimit h (getEffectiveModelForCurrentTurn h ?s2) - lastPromptTokenCount ?s2)]
           ?s2 = (evs, ctl, s')"
          by (simp only: nmax nz True if_True if_False simp_thms)
        with nmax nz True show thesis by (intro overflow)
      next
        case nov: False
        from eq have eq2: "(case tryCompressChat h ?s2 prompt_id False of
              (Inl e, s3) \<Rightarrow> ([], Raise e, s3)
            | (Inr compressed, s3) \<Rightarrow>
                prepareAndRun h s3 request prompt_id (min turns MAX_TURNS) retry
                  (if compressionStatus compressed = COMPRESSED
                   then [ChatCompressed compressed] else [])) = (evs, ctl, s')"
          by (simp only: nmax nz nov if_True if_False simp_thms)
        obtain r s3 where tc: "tryCompressChat h ?s2 prompt_id False = (r, s3)"
          by (cases "tryCompressChat h ?s2 prompt_id False")
        show thesis
        proof (cases r)
          case (Inl e)
          with eq2 tc have "evs = []" "ctl = Raise e" "s3 = s'" by simp_all
          with nmax nz nov tc Inl show thesis by (intro thrown [of e]) simp_all
        next
          case (Inr compressed)
          with eq2 tc have "prepareAndRun h s3 request prompt_id (min turns MAX_TURNS) retry
             (if compressionStatus compressed = COMPRESSED then [ChatCompressed compressed] else [])
            = (evs, ctl, s')" by simp
          with nmax nz nov tc Inr show thesis by (intro proceed [of compressed s3]) simp_all
        qed
      qed
    qed
  qed
qed

section \<open>Counting calls\<close>

lemma compression_not_counted:
  "isCompressionAction a \<Longrightarrow> \<not> isModelCall a \<and> \<not> isRouterCall a \<and> \<not> isAddHistory a"
  by (cases a) simp_all

lemma turnAction_not_counted:
  "isTurnAction a \<Longrightarrow> \<not> isModelCall a \<and> \<not> isRouterCall a \<and> \<not> isAddHistory a"
  by (cases a) simp_all

lemma addHistory_not_counted:
  "isAddHistory a \<Longrightarrow> \<not> isModelCall a \<and> \<not> isRouterCall a"
  by (cases a) simp_all

lemma compression_counts:
  assumes "loggedOnly isCompressionAction s t"
  shows "modelCalls (log t) = modelCalls (log s)" "routerCalls (log t) = routerCalls (log s)"
    "historyAppends (log t) = historyAppends (log s)"
proof -
  from assms obtain xs where xs: "log t = log s @ xs" "list_all isCompressionAction xs"
    by (auto simp: loggedOnly_def)
  from xs(2) have "filter isModelCall xs = []" "filter isRouterCall xs = []"
    "filter isAddHistory xs = []"
    by (auto simp: list_all_iff filter_empty_conv dest: compression_not_counted)
  with xs(1) show "modelCalls (log t) = modelCalls (log s)"
    "routerCalls (log t) = routerCalls (log s)"
    "historyAppends (log t) = historyAppends (log s)"
    by (simp_all add: modelCalls_def routerCalls_def historyAppends_def)
qed

lemma addHistory_counts:
  assumes "loggedOnly isAddHistory s t"
  shows "modelCalls (log t) = modelCalls (log s)" "routerCalls (log t) = routerCalls (log s)"
proof -
  from assms obtain xs where xs: "log t = log s @ xs" "list_all isAddHistory xs"
    by (auto simp: loggedOnly_def)
  from xs(2) have "filter isModelCall xs = []" "filter isRouterCall xs = []"
    by (auto simp: list_all_iff filter_empty_conv dest: addHistory_not_counted)
  with xs(1) show "modelCalls (log t) = modelCalls (log s)"
    "routerCalls (log t) = routerCalls (log s)"
    by (simp_all add: modelCalls_def routerCalls_def)
qed

lemma beginTurn_simps:
  "lastPromptId (beginTurn s p) = p"
  "sessionTurnCount (beginTurn s p) = sessionTurnCount s + 1"
  "chat (beginTurn s p) = chat s"
  "lastPromptTokenCount (beginTurn s p) = lastPromptTokenCount s"
  "currentSequenceModel (beginTurn s p)
     = (if lastPromptId s = p then currentSequenceModel s else None)"
  by (simp_all add: beginTurn_frame)

lemma beginTurn_counts:
  "modelCalls (log (beginTurn s p)) = modelCalls (log s)"
  "routerCalls (log (beginTurn s p)) = routerCalls (log s)"
  "historyAppends (log (beginTurn s p)) = historyAppends (log s)"
  by (simp_all add: beginTurn_frame modelCalls_def routerCalls_def historyAppends_def)

lemma tryCompressChat_counts:
  assumes "tryCompressChat h s p f = (r, s')"
  shows "modelCalls (log s') = modelCalls (log s)" "routerCalls (log s') = routerCalls (log s)"
    "historyAppends (log s') = historyAppends (log s)"
  by (rule compression_counts [OF tryCompressChat_log [OF assms]])+

lemma selectModel_counts:
  assumes "selectModel h s hist request = (m, s')"
  shows "modelCalls (log s') = modelCalls (log s)"
    "historyAppends (log s') = historyAppends (log s)"
    "routerCalls (log s') = routerCalls (log s) + (if truthy (currentSequenceModel s) then 0 else 1)"
  using selectModel_cases [OF assms]
  by (auto simp: modelCalls_def routerCalls_def historyAppends_def record_action_def)

lemma runTurn_counts:
  assumes "runTurn h s ch request p b retry m emitted = (evs, ctl, s')"
  shows "modelCalls (log s') = modelCalls (log s) + 1"
    "routerCalls (log s') = routerCalls (log s)"
    "historyAppends (log s') = historyAppends (log s)"
proof -
  from runTurn_result [OF assms] obtain xs where
    xs: "log s' = log s @ ModelCall m request # xs" "list_all isTurnAction xs" by blast
  from xs(2) have "filter isModelCall xs = []" "filter isRouterCall xs = []"
    "filter isAddHistory xs = []"
    by (auto simp: list_all_iff filter_empty_conv dest: turnAction_not_counted)
  with xs(1) show "modelCalls (log s') = modelCalls (log s) + 1"
    "routerCalls (log s') = routerCalls (log s)"
    "historyAppends (log s') = historyAppends (log s)"
    by (simp_all add: modelCalls_def routerCalls_def historyAppends_def)
qed

lemma returnTurn_result:
  "returnTurn evs0 s = (evs, ctl, s') \<Longrightarrow>
     evs = evs0 \<and> s' = s \<and> (ctl = Done \<or> (\<exists>e. ctl = Raise e))"
  by (auto simp: returnTurn_def split: option.splits)

lemma prepareAndRun_modelCalls:
  assumes "prepareAndRun h s request p b retry emitted = (evs, ctl, s')"
  shows "(modelCalls (log s') = modelCalls (log s)
          \<and> (evs = emitted \<or> evs = emitted @ [LoopDetected])
          \<and> (ctl = Done \<or> (\<exists>e. ctl = Raise e)))
       \<or> modelCalls (log s') = modelCalls (log s) + 1"
  using assms
proof (cases rule: prepareAndRun_cases)
  case stopped
  from addHistory_counts(1) [OF stopped(2)] stopped(1) show ?thesis by auto
next
  case (ran s1 ch s2 ch2 m s3)
  from refreshSystemInstruction_frame [OF ran(1)] have "log s1 = log s" by simp
  moreover have "loggedOnly isAddHistory s1 s2"
    unfolding ran(3) using injectIdeContext_frame [of h s1 ch] by simp
  note addHistory_counts(1) [OF this]
  moreover note selectModel_counts(1) [OF ran(6)] runTurn_counts(1) [OF ran(7)]
  ultimately show ?thesis by simp
qed

section \<open>The context window guard\<close>

text \<open>
  C5. An invocation that reaches the context window check (the session turn cap is not
  exceeded and the bounded turns are not zero) emits exactly the event
  ContextWindowWillOverflow with the estimate and the remaining budget, makes no model
  call and ends without a recursive call, if and only if the estimate, the length of the
  request's JSON text divided by 4 and rounded down, is greater than 95 percent of the
  remaining budget, the token limit of the model for the limit check minus the last
  prompt token count.
\<close>

theorem sendMessageStream_context_window_guard:
  assumes "\<not> (0 < getMaxSessionTurns h \<and> getMaxSessionTurns h < int (sessionTurnCount s) + 1)"
    and "min turns MAX_TURNS \<noteq> 0"
    and "sendMessageStreamTurn h s request prompt_id turns retry = (evs, ctl, s')"
  shows "(evs = [ContextWindowWillOverflow (int (requestLength h request div 4))
                   (tokenLimit h (getEffectiveModelForCurrentTurn h (beginTurn s prompt_id))
                      - lastPromptTokenCount s)]
          \<and> modelCalls (log s') = modelCalls (log s)
          \<and> (ctl = Done \<or> (\<exists>e. ctl = Raise e)))
       \<longleftrightarrow>
         real_of_int (tokenLimit h (getEffectiveModelForCurrentTurn h (beginTurn s prompt_id))
                        - lastPromptTokenCount s) * (95 / 100)
           < real_of_int (int (requestLength h request div 4))"
    (is "?emitted \<longleftrightarrow> ?over")
proof -
  have over: "?over \<longleftrightarrow> overflows h (beginTurn s prompt_id) request"
    by (simp only: overflows_def beginTurn_simps)
  from assms(3) show ?thesis
  proof (cases rule: sendMessageStreamTurn_cases)
    case maxTurns
    with assms(1) show ?thesis by simp
  next
    case zero
    with assms(2) show ?thesis by simp
  next
    case overflow
    from returnTurn_result [OF overflow(4)]
    have "?emitted" by (simp add: beginTurn_simps beginTurn_counts)
    with overflow(3) over show ?thesis by simp
  next
    case (thrown e)
    from thrown(5) have "\<not> ?emitted" by simp
    with thrown(3) over show ?thesis by simp
  next
    case (proceed compressed s3)
    let ?em = "if compressionStatus compressed = COMPRESSED then [ChatCompressed compressed]
               else []"
    have calls: "modelCalls (log s3) = modelCalls (log s)"
      using tryCompressChat_counts(1) [OF proceed(4)] by (simp add: beginTurn_counts)
    have "\<not> ?emitted"
    proof
      assume e: "?emitted"
      from prepareAndRun_modelCalls [OF proceed(5)] e calls
      have "evs = ?em \<or> evs = ?em @ [LoopDetected]" by auto
      with e show False by (auto split: if_splits)
    qed
    with proceed(3) over show ?thesis by simp
  qed
qed

lemmas turn_defs = sendMessageStreamTurn_def beginTurn_def sequenceReset_def returnTurn_def
  prepareAndRun_def refreshSystemInstruction_def injectIdeContext_def hasPendingToolCall_def
  selectModel_def runTurn_def continuation_def MAX_TURNS_def

text \<open>
  The scenario of the specification: an estimate of 9500 against a remaining budget of
  10000 runs the turn, an estimate of 9501 stops with the overflow event.
\<close>

lemma budget_run_9500:
  "sendMessageStreamTurn (budgetHost 38000) (freshClient smallHistory) [textPart ''hi''] ''p'' 100 False
     = ([Content ''ok'', Finished], Done,
        (freshClient (smallHistory @ [\<lparr>role = Some ''user'', parts = Some [textPart ''hi'']\<rparr>,
                                       textContent ''model'' ''ok'']))
        \<lparr>sessionTurnCount := 1, lastPromptId := ''p'',
          currentSequenceModel := Some ''gemini-2.5-pro'',
          log := [LoopDetectorReset ''p'',
                  RouterCall smallHistory [textPart ''hi''],
                  ModelCall ''gemini-2.5-pro'' [textPart ''hi''],
                  NextSpeakerCall ''p'']\<rparr>)"
  by (simp add: turn_defs compress_defs split_defs example_defs json_defs budgetHost_def Let_def)

theorem sendMessageStream_context_window_guard_witness:
  "fst (sendMessageStreamTurn (budgetHost 38004) (freshClient smallHistory) [textPart ''hi''] ''p''
          100 False) = [ContextWindowWillOverflow 9501 10000]
   \<and> modelCalls (log (snd (snd (sendMessageStreamTurn (budgetHost 38004) (freshClient smallHistory)
          [textPart ''hi''] ''p'' 100 False)))) = 0
   \<and> fst (sendMessageStreamTurn (budgetHost 38000) (freshClient smallHistory) [textPart ''hi''] ''p''
          100 False) = [Content ''ok'', Finished]
   \<and> modelCalls (log (snd (snd (sendMessageStreamTurn (budgetHost 38000) (freshClient smallHistory)
          [textPart ''hi''] ''p'' 100 False)))) = 1"
proof -
  let ?s = "freshClient smallHistory"
  let ?t = "\<lambda>n. sendMessageStreamTurn (budgetHost n) ?s [textPart ''hi''] ''p'' 100 False"
  have cap: "\<And>n. \<not> (0 < getMaxSessionTurns (budgetHost n)
                 \<and> getMaxSessionTurns (budgetHost n) < int (sessionTurnCount ?s) + 1)"
    by (simp add: budgetHost_def quietHost_def)
  have nz: "min (100::int) MAX_TURNS \<noteq> 0" by (simp add: MAX_TURNS_def)
  have model: "\<And>n. getEffectiveModelForCurrentTurn (budgetHost n) (beginTurn ?s ''p'')
                 = ''gemini-2.5-pro''"
    by (simp add: getEffectiveModelForCurrentTurn_def beginTurn_def sequenceReset_def
          truthy_def budgetHost_def quietHost_def freshClient_def record_action_def Let_def)
  have tr: "\<And>n. ?t n = (fst (?t n), fst (snd (?t n)), snd (snd (?t n)))" by simp
  from sendMessageStream_context_window_guard [OF cap nz tr, of 38004]
  have over: "fst (?t 38004) = [ContextWindowWillOverflow 9501 10000]
       \<and> modelCalls (log (snd (snd (?t 38004)))) = modelCalls (log ?s)"
    by (simp add: model budgetHost_def quietHost_def freshClient_def)
  from sendMessageStream_context_window_guard [OF cap nz tr, of 38000]
  have "\<not> (fst (?t 38000) = [ContextWindowWillOverflow 9500 10000]
            \<and> modelCalls (log (snd (snd (?t 38000)))) = modelCalls (log ?s)
            \<and> (fst (snd (?t 38000)) = Done \<or> (\<exists>e. fst (snd (?t 38000)) = Raise e)))"
    by (simp add: model budgetHost_def quietHost_def freshClient_def)
  moreover have "modelCalls (log ?s) = 0" by (simp add: freshClient_def modelCalls_def)
  moreover note over
  ultimately show ?thesis
    by (simp add: budget_run_9500 modelCalls_def)
qed

section \<open>The anomaly retry\<close>

lemma returnTurn_events: "returnTurn evs0 s = (evs, ctl, s') \<Longrightarrow> evs = evs0"
  by (simp add: returnTurn_result)

text \<open>
  C8. When an invocation forwards an InvalidStream event and the host is configured to
  continue past failed calls, it has made exactly one model call and: without the
  anomaly-retry marker it ends in the recursive call with the request
  \<^verbatim>\<open>System: Please continue.\<close>, one turn less and the marker set, whose events follow
  its own; with the marker it returns with no further call, and the last thing it did
  was to log the retry failure with an attempt count of 4.
\<close>

theorem sendMessageStream_invalid_stream_retry:
  assumes "sendMessageStreamTurn (hosts (sessionTurnCount s)) s request prompt_id turns retry
             = (evs, ctl, s')"
    and "getContinueOnFailedApiCall (hosts (sessionTurnCount s))"
    and "InvalidStream \<in> set evs"
  shows "modelCalls (log s') = modelCalls (log s) + 1 \<and>
        (if retry
         then ctl = Done
            \<and> (\<exists>m. last (log s') = LogContentRetryFailure 4 ''FAILED_AFTER_PROMPT_INJECTION'' m)
            \<and> sendMessageStream (Suc fuel) hosts s request prompt_id turns retry
                = (evs, Returned, s')
         else ctl = Continue [textPart ''System: Please continue.''] (min turns MAX_TURNS - 1) True
            \<and> sendMessageStream (Suc fuel) hosts s request prompt_id turns retry
                = (case sendMessageStream fuel hosts s' [textPart ''System: Please continue.'']
                          prompt_id (min turns MAX_TURNS - 1) True of
                     (evs1, out, s2) \<Rightarrow> (evs @ evs1, out, s2)))"
  using assms(1)
proof (cases rule: sendMessageStreamTurn_cases)
  case maxTurns
  from returnTurn_events [OF maxTurns(3)] assms(3) show ?thesis by simp
next
  case zero
  from returnTurn_events [OF zero(3)] assms(3) show ?thesis by simp
next
  case overflow
  from returnTurn_events [OF overflow(4)] assms(3) show ?thesis by simp
next
  case (thrown e)
  with assms(3) show ?thesis by simp
next
  case (proceed compressed s3)
  let ?h = "hosts (sessionTurnCount s)"
  let ?em = "if compressionStatus compressed = COMPRESSED then [ChatCompressed compressed]
             else []"
  have em: "InvalidStream \<notin> set ?em" by simp
  from proceed(5) show ?thesis
  proof (cases rule: prepareAndRun_cases)
    case stopped
    from stopped(1) assms(3) em show ?thesis by auto
  next
    case (ran s1 ch s2 ch2 m s4)
    from runTurn_result [OF ran(7)] obtain yielded exit xs where
      c: "consumeStream ?h retry [] (turnEvents ?h m request (history ch2)) = (yielded, exit)"
      and evs: "evs = ?em @ yielded"
      and lg: "log s' = log s4 @ ModelCall m request # xs"
      and ex: "case exit of
               LoopAbort \<Rightarrow> ctl = Done
             | RetryFailed \<Rightarrow> ctl = Done
                 \<and> xs = [LogContentRetryFailure 4 ''FAILED_AFTER_PROMPT_INJECTION'' m]
             | Retry \<Rightarrow> ctl = Continue [textPart ''System: Please continue.'']
                           (min turns MAX_TURNS - 1) True \<and> xs = []
             | ErrorStop \<Rightarrow> ctl = Done
             | Exhausted \<Rightarrow>
                 (\<forall>r t x. ctl = Continue r t x \<longrightarrow>
                    r = [textPart ''Please continue.''] \<and> t = min turns MAX_TURNS - 1 \<and> \<not> x)"
      by blast
    from evs assms(3) em have "InvalidStream \<in> set yielded" by auto
    from consumeStream_InvalidStream [OF c assms(2) this]
    have exit: "exit = (if retry then RetryFailed else Retry)" .
    have calls: "modelCalls (log s') = modelCalls (log s) + 1"
    proof -
      have "modelCalls (log s3) = modelCalls (log s)"
        using tryCompressChat_counts(1) [OF proceed(4)] by (simp add: beginTurn_counts)
      moreover from refreshSystemInstruction_frame [OF ran(1)] have "log s1 = log s3" by simp
      moreover have "loggedOnly isAddHistory s1 s2"
        unfolding ran(3) using injectIdeContext_frame [of ?h s1 ch] by simp
      note addHistory_counts(1) [OF this]
      moreover note selectModel_counts(1) [OF ran(6)] runTurn_counts(1) [OF ran(7)]
      ultimately show ?thesis by simp
    qed
    show ?thesis
    proof (cases retry)
      case True
      with exit ex have "ctl = Done"
        "xs = [LogContentRetryFailure 4 ''FAILED_AFTER_PROMPT_INJECTION'' m]" by simp_all
      with lg calls True assms(1) show ?thesis by simp
    next
      case False
      with exit ex have "ctl = Continue [textPart ''System: Please continue.'']
                           (min turns MAX_TURNS - 1) True" by simp
      with calls False assms(1) show ?thesis by simp
    qed
  qed
qed

text \<open>
  Two invalid streams in a row within one top-level call: two model calls, the second
  invocation ends the call, the failure is logged with count 4.
\<close>

lemma first_invalid_run:
  "sendMessageStreamTurn invalidHost (freshClient smallHistory) [textPart ''hi''] ''p'' 100 False
     = ([Content ''partial'', InvalidStream],
        Continue [textPart ''System: Please continue.''] 99 True, afterFirstInvalid)"
  by (simp add: turn_defs compress_defs split_defs example_defs json_defs invalidHost_def
        afterFirstInvalid_def Let_def)

lemma second_invalid_run:
  "sendMessageStreamTurn invalidHost afterFirstInvalid [textPart ''System: Please continue.'']
       ''p'' 99 True
     = ([Content ''partial'', InvalidStream], Done, afterSecondInvalid)"
  by (simp add: turn_defs compress_defs split_defs example_defs json_defs invalidHost_def
        afterFirstInvalid_def afterSecondInvalid_def Let_def)

theorem sendMessageStream_invalid_stream_retry_witness:
  "sendMessageStream 2 (\<lambda>k. invalidHost) (freshClient smallHistory) [textPart ''hi''] ''p'' 100 False
     = ([Content ''partial'', InvalidStream, Content ''partial'', InvalidStream], Returned,
        afterSecondInvalid)
   \<and> modelCalls (log afterSecondInvalid) = modelCalls (log (freshClient smallHistory)) + 2
   \<and> last (log afterSecondInvalid)
       = LogContentRetryFailure 4 ''FAILED_AFTER_PROMPT_INJECTION'' ''gemini-2.5-pro''"
proof -
  have c: "getContinueOnFailedApiCall invalidHost" by (simp add: invalidHost_def quietHost_def)
  have i: "InvalidStream \<in> set [Content ''partial'', InvalidStream]" by simp
  have two: "Suc (Suc 0) = 2" by simp
  have m: "min (100::int) MAX_TURNS - 1 = 99" by (simp add: MAX_TURNS_def)
  from sendMessageStream_invalid_stream_retry
    [of "\<lambda>k. invalidHost" afterFirstInvalid _ _ 99 True _ _ _ 0, OF second_invalid_run c i]
  have second: "sendMessageStream (Suc 0) (\<lambda>k. invalidHost) afterFirstInvalid
        [textPart ''System: Please continue.''] ''p'' 99 True
       = ([Content ''partial'', InvalidStream], Returned, afterSecondInvalid)"
    and c2: "modelCalls (log afterSecondInvalid) = modelCalls (log afterFirstInvalid) + 1"
    by simp_all
  from sendMessageStream_invalid_stream_retry
    [of "\<lambda>k. invalidHost" "freshClient smallHistory" _ _ 100 False _ _ _ "Suc 0",
     OF first_invalid_run c i]
  have first: "sendMessageStream (Suc (Suc 0)) (\<lambda>k. invalidHost) (freshClient smallHistory)
        [textPart ''hi''] ''p'' 100 False
       = ([Content ''partial'', InvalidStream, Content ''partial'', InvalidStream], Returned,
          afterSecondInvalid)"
    and c1: "modelCalls (log afterFirstInvalid) = modelCalls (log (freshClient smallHistory)) + 1"
    by (simp_all only: m second, simp_all)
  have "last (log afterSecondInvalid)
       = LogContentRetryFailure 4 ''FAILED_AFTER_PROMPT_INJECTION'' ''gemini-2.5-pro''"
    by (simp add: afterSecondInvalid_def)
  with first c1 c2 show ?thesis by (simp only: two) simp
qed

section \<open>The pending tool-call guard\<close>












section \<open>Sticky routing\<close>

lemma prepareAndRun_routing:
  assumes "prepareAndRun h s request p b retry emitted = (evs, ctl, s')"
  shows "lastPromptId s' = lastPromptId s \<and> sessionTurnCount s' = sessionTurnCount s
       \<and> ((routerCalls (log s') = routerCalls (log s)
            \<and> currentSequenceModel s' = currentSequenceModel s
            \<and> (modelCalls (log s') = modelCalls (log s) \<or> truthy (currentSequenceModel s)))
          \<or> (routerCalls (log s') = routerCalls (log s) + 1
            \<and> \<not> truthy (currentSequenceModel s)
            \<and> (\<exists>hist. currentSequenceModel s' = Some (route h hist request))
            \<and> modelCalls (log s') = modelCalls (log s) + 1))"
  using assms
proof (cases rule: prepareAndRun_cases)
  case stopped
  from addHistory_counts [OF stopped(2)] stopped(3,4,5) show ?thesis by simp
next
  case (ran s1 ch s2 ch2 m s3)
  from refreshSystemInstruction_frame [OF ran(1)]
  have f1: "log s1 = log s" "lastPromptId s1 = lastPromptId s"
    "currentSequenceModel s1 = currentSequenceModel s"
    "sessionTurnCount s1 = sessionTurnCount s" by simp_all
  from injectIdeContext_frame [of h s1 ch, folded ran(3)]
  have f2: "lastPromptId s2 = lastPromptId s1" "currentSequenceModel s2 = currentSequenceModel s1"
    "sessionTurnCount s2 = sessionTurnCount s1" and lo: "loggedOnly isAddHistory s1 s2"
    by simp_all
  from addHistory_counts [OF lo] f1(1)
  have c2: "modelCalls (log s2) = modelCalls (log s)" "routerCalls (log s2) = routerCalls (log s)"
    by simp_all
  note rc = runTurn_counts [OF ran(7)]
  from runTurn_result [OF ran(7)] have fr: "lastPromptId s' = lastPromptId s3"
    "currentSequenceModel s' = currentSequenceModel s3"
    "sessionTurnCount s' = sessionTurnCount s3" by auto
  have csm: "currentSequenceModel s2 = currentSequenceModel s" using f1 f2 by simp
  have ids: "lastPromptId s2 = lastPromptId s" "sessionTurnCount s2 = sessionTurnCount s"
    using f1 f2 by simp_all
  from selectModel_cases [OF ran(6)] show ?thesis
  proof
    assume a: "truthy (currentSequenceModel s2) \<and> currentSequenceModel s2 = Some m \<and> s3 = s2"
    then have "s3 = s2" by blast
    from a csm have t: "truthy (currentSequenceModel s)" by metis
    with \<open>s3 = s2\<close> fr ids csm c2 rc have "lastPromptId s' = lastPromptId s"
      "sessionTurnCount s' = sessionTurnCount s"
      "routerCalls (log s') = routerCalls (log s)"
      "currentSequenceModel s' = currentSequenceModel s" by simp_all
    with t show ?thesis by blast
  next
    assume a: "\<not> truthy (currentSequenceModel s2)
         \<and> m = route h (curated h (history ch2)) request
         \<and> s3 = (record_action (RouterCall (curated h (history ch2)) request) s2)
                    \<lparr>currentSequenceModel := Some m\<rparr>"
    with csm have nt: "\<not> truthy (currentSequenceModel s)" by metis
    from a have s3: "lastPromptId s3 = lastPromptId s2" "sessionTurnCount s3 = sessionTurnCount s2"
      "currentSequenceModel s3 = Some (route h (curated h (history ch2)) request)"
      "routerCalls (log s3) = routerCalls (log s2) + 1"
      "modelCalls (log s3) = modelCalls (log s2)"
      by (simp_all add: record_action_def routerCalls_def modelCalls_def)
    with fr ids c2 rc have "lastPromptId s' = lastPromptId s"
      "sessionTurnCount s' = sessionTurnCount s"
      "routerCalls (log s') = routerCalls (log s) + 1"
      "currentSequenceModel s' = Some (route h (curated h (history ch2)) request)"
      "modelCalls (log s') = modelCalls (log s) + 1" by simp_all
    with nt show ?thesis by blast
  qed
qed

lemma sendMessageStreamTurn_routing:
  assumes "sendMessageStreamTurn h s request p turns retry = (evs, ctl, s')"
  shows "lastPromptId s' = p \<and> sessionTurnCount s' = sessionTurnCount s + 1
       \<and> ((routerCalls (log s') = routerCalls (log s)
            \<and> currentSequenceModel s' = currentSequenceModel (beginTurn s p)
            \<and> (modelCalls (log s') = modelCalls (log s)
                \<or> truthy (currentSequenceModel (beginTurn s p))))
          \<or> (routerCalls (log s') = routerCalls (log s) + 1
            \<and> \<not> truthy (currentSequenceModel (beginTurn s p))
            \<and> (\<exists>hist. currentSequenceModel s' = Some (route h hist request))
            \<and> modelCalls (log s') = modelCalls (log s) + 1))"
  using assms
proof (cases rule: sendMessageStreamTurn_cases)
  case maxTurns
  from returnTurn_result [OF maxTurns(3)] show ?thesis
    by (simp add: beginTurn_simps beginTurn_counts)
next
  case zero
  from returnTurn_result [OF zero(3)] show ?thesis
    by (simp add: beginTurn_simps beginTurn_counts)
next
  case overflow
  from returnTurn_result [OF overflow(4)] show ?thesis
    by (simp add: beginTurn_simps beginTurn_counts)
next
  case (thrown e)
  from tryCompressChat_frame [OF thrown(4)] tryCompressChat_counts [OF thrown(4)]
  show ?thesis by (simp add: beginTurn_simps(1,2) beginTurn_counts)
next
  case (proceed compressed s3)
  from tryCompressChat_frame [OF proceed(4)] tryCompressChat_counts [OF proceed(4)]
    prepareAndRun_routing [OF proceed(5)]
  show ?thesis by (simp add: beginTurn_simps(1,2) beginTurn_counts)
qed

lemma usesModel_other: "\<not> isModelCall a \<Longrightarrow> usesModel pinned a"
  by (cases a) (simp_all add: usesModel_def)

lemma beginTurn_logged: "loggedOnly (usesModel pinned) s (beginTurn s p)"
  by (simp add: loggedOnly_def beginTurn_frame usesModel_def)

lemma prepareAndRun_usesModel:
  assumes "prepareAndRun h s request p b retry emitted = (evs, ctl, s')"
  shows "loggedOnly (usesModel (currentSequenceModel s')) s s'"
  using assms
proof (cases rule: prepareAndRun_cases)
  case stopped
  from stopped(2) show ?thesis
    by (rule loggedOnly_mono) (auto dest: addHistory_not_counted intro: usesModel_other)
next
  case (ran s1 ch s2 ch2 m s3)
  let ?A = "usesModel (currentSequenceModel s')"
  from refreshSystemInstruction_frame [OF ran(1)] have "loggedOnly ?A s s1"
    by (simp add: loggedOnly_same_log)
  moreover have "loggedOnly isAddHistory s1 s2"
    unfolding ran(3) using injectIdeContext_frame [of h s1 ch] by simp
  then have "loggedOnly ?A s1 s2"
    by (rule loggedOnly_mono) (auto dest: addHistory_not_counted intro: usesModel_other)
  moreover from selectModel_cases [OF ran(6)] have "loggedOnly ?A s2 s3"
    and m: "currentSequenceModel s3 = Some m"
    by (auto simp: loggedOnly_def record_action_def usesModel_def)
  moreover from runTurn_result [OF ran(7)] obtain xs where
    xs: "log s' = log s3 @ ModelCall m request # xs" "list_all isTurnAction xs"
    and c: "currentSequenceModel s' = currentSequenceModel s3" by blast
  from xs(2) have "list_all ?A xs"
    by (auto simp: list_all_iff dest: turnAction_not_counted intro: usesModel_other)
  with xs(1) c m have "loggedOnly ?A s3 s'"
    by (simp add: loggedOnly_def usesModel_def)
  ultimately show ?thesis by (blast intro: loggedOnly_trans)
qed

lemma sendMessageStreamTurn_usesModel:
  assumes "sendMessageStreamTurn h s request p turns retry = (evs, ctl, s')"
  shows "loggedOnly (usesModel (currentSequenceModel s')) s s'"
  using assms
proof (cases rule: sendMessageStreamTurn_cases)
  case maxTurns
  from returnTurn_result [OF maxTurns(3)] show ?thesis by (simp add: beginTurn_logged)
next
  case zero
  from returnTurn_result [OF zero(3)] show ?thesis by (simp add: beginTurn_logged)
next
  case overflow
  from returnTurn_result [OF overflow(4)] show ?thesis by (simp add: beginTurn_logged)
next
  case (thrown e)
  from tryCompressChat_log [OF thrown(4)]
  have "loggedOnly (usesModel (currentSequenceModel s')) (beginTurn s p) s'"
    by (rule loggedOnly_mono) (auto dest: compression_not_counted intro: usesModel_other)
  with beginTurn_logged show ?thesis by (blast intro: loggedOnly_trans)
next
  case (proceed compressed s3)
  from tryCompressChat_log [OF proceed(4)]
  have "loggedOnly (usesModel (currentSequenceModel s')) (beginTurn s p) s3"
    by (rule loggedOnly_mono) (auto dest: compression_not_counted intro: usesModel_other)
  with beginTurn_logged prepareAndRun_usesModel [OF proceed(5)] show ?thesis
    by (blast intro: loggedOnly_trans)
qed

lemma sendMessageStream_Suc:
  assumes "sendMessageStream (Suc fuel) hosts s request p turns retry = (evs, out, s')"
  obtains
    (ended) ctl where
      "sendMessageStreamTurn (hosts (sessionTurnCount s)) s request p turns retry = (evs, ctl, s')"
      "ctl = Done \<and> out = Returned \<or> (\<exists>e. ctl = Raise e \<and> out = Threw e)"
  | (continued) evs0 r t x s1 evs1 where
      "sendMessageStreamTurn (hosts (sessionTurnCount s)) s request p turns retry
         = (evs0, Continue r t x, s1)"
      "sendMessageStream fuel hosts s1 r p t x = (evs1, out, s')" "evs = evs0 @ evs1"
proof -
  obtain evs0 ctl s1 where
    t: "sendMessageStreamTurn (hosts (sessionTurnCount s)) s request p turns retry
          = (evs0, ctl, s1)"
    by (cases "sendMessageStreamTurn (hosts (sessionTurnCount s)) s request p turns retry")
  show thesis
  proof (cases ctl)
    case Done
    with assms t show thesis by (intro ended [of Done]) simp_all
  next
    case (Raise e)
    with assms t show thesis by (intro ended [of "Raise e"]) simp_all
  next
    case (Continue r t' x)
    obtain evs1 out1 s2 where
      rec: "sendMessageStream fuel hosts s1 r p t' x = (evs1, out1, s2)"
      by (cases "sendMessageStream fuel hosts s1 r p t' x")
    with assms t Continue show thesis
      by (intro continued [of evs0 r t' x s1 evs1]) simp_all
  qed
qed

lemma sendMessageStreamTurn_routing_cases:
  assumes "sendMessageStreamTurn h s request p turns retry = (evs, ctl, s1)"
    and "\<And>hist r. route h hist r \<noteq> []"
  obtains
    (same) "routerCalls (log s1) = routerCalls (log s)"
      "currentSequenceModel s1 = currentSequenceModel (beginTurn s p)" "lastPromptId s1 = p"
  | (once) "routerCalls (log s1) = routerCalls (log s) + 1"
      "\<not> truthy (currentSequenceModel (beginTurn s p))"
      "truthy (currentSequenceModel s1)" "lastPromptId s1 = p"
proof -
  note turn = sendMessageStreamTurn_routing [OF assms(1)]
  from turn have id1: "lastPromptId s1 = p" by simp
  from turn have "(routerCalls (log s1) = routerCalls (log s)
        \<and> currentSequenceModel s1 = currentSequenceModel (beginTurn s p))
      \<or> (routerCalls (log s1) = routerCalls (log s) + 1
        \<and> \<not> truthy (currentSequenceModel (beginTurn s p))
        \<and> (\<exists>hist. currentSequenceModel s1 = Some (route h hist request)))" by blast
  then show thesis
  proof
    assume "routerCalls (log s1) = routerCalls (log s)
        \<and> currentSequenceModel s1 = currentSequenceModel (beginTurn s p)"
    with id1 show thesis by (intro same) simp_all
  next
    assume a: "routerCalls (log s1) = routerCalls (log s) + 1
        \<and> \<not> truthy (currentSequenceModel (beginTurn s p))
        \<and> (\<exists>hist. currentSequenceModel s1 = Some (route h hist request))"
    then obtain hist where "currentSequenceModel s1 = Some (route h hist request)" by blast
    with assms(2) have "truthy (currentSequenceModel s1)" by (simp add: truthy_def)
    with a id1 show thesis by (intro once) simp_all
  qed
qed

lemma sendMessageStream_routing:
  assumes nonempty: "\<And>k hist r. route (hosts k) hist r \<noteq> []"
    and run: "sendMessageStream fuel hosts s request p turns retry = (evs, out, s')"
  shows "routerCalls (log s) \<le> routerCalls (log s')
       \<and> routerCalls (log s') \<le> routerCalls (log s) + 1
       \<and> (lastPromptId s = p \<and> truthy (currentSequenceModel s) \<longrightarrow>
            routerCalls (log s') = routerCalls (log s)
            \<and> currentSequenceModel s' = currentSequenceModel s \<and> lastPromptId s' = p
            \<and> loggedOnly (usesModel (currentSequenceModel s)) s s')
       \<and> (routerCalls (log s') = routerCalls (log s) + 1 \<longrightarrow>
            truthy (currentSequenceModel s') \<and> lastPromptId s' = p)"
  using run
proof (induction fuel arbitrary: s request turns retry evs out s')
  case 0
  then show ?case by (simp add: loggedOnly_refl)
next
  case (Suc fuel)
  let ?h = "hosts (sessionTurnCount s)"
  have pinned: "lastPromptId s = p \<Longrightarrow> currentSequenceModel (beginTurn s p) = currentSequenceModel s"
    by (simp add: beginTurn_simps)
  from Suc.prems show ?case
  proof (cases rule: sendMessageStream_Suc)
    case (ended ctl)
    note used = sendMessageStreamTurn_usesModel [OF ended(1)]
    from ended(1) nonempty show ?thesis
    proof (cases rule: sendMessageStreamTurn_routing_cases)
      case same
      show ?thesis
      proof (cases "lastPromptId s = p \<and> truthy (currentSequenceModel s)")
        case True
        with same pinned have c1: "currentSequenceModel s' = currentSequenceModel s" by simp
        with used have "loggedOnly (usesModel (currentSequenceModel s)) s s'" by simp
        with c1 same True show ?thesis by simp
      next
        case False
        with same show ?thesis by auto
      qed
    next
      case once
      from once(2) pinned have np: "\<not> (lastPromptId s = p \<and> truthy (currentSequenceModel s))"
        by auto
      with once show ?thesis by auto
    qed
  next
    case (continued evs0 r t x s1 evs1)
    note used = sendMessageStreamTurn_usesModel [OF continued(1)]
    note ih = Suc.IH [OF continued(2)]
    from continued(1) nonempty show ?thesis
    proof (cases rule: sendMessageStreamTurn_routing_cases)
      case same
      show ?thesis
      proof (cases "lastPromptId s = p \<and> truthy (currentSequenceModel s)")
        case True
        with same pinned have c1: "currentSequenceModel s1 = currentSequenceModel s" by simp
        with used have u1: "loggedOnly (usesModel (currentSequenceModel s)) s s1" by simp
        from True c1 same(3) ih
        have r: "routerCalls (log s') = routerCalls (log s1)"
          "currentSequenceModel s' = currentSequenceModel s1" "lastPromptId s' = p"
          "loggedOnly (usesModel (currentSequenceModel s1)) s1 s'" by simp_all
        from u1 r(4) c1 have "loggedOnly (usesModel (currentSequenceModel s)) s s'"
          by (auto intro: loggedOnly_trans)
        with r c1 same(1) True show ?thesis by simp
      next
        case False
        from ih same(1) have "routerCalls (log s) \<le> routerCalls (log s')"
          "routerCalls (log s') \<le> routerCalls (log s) + 1"
          "routerCalls (log s') = routerCalls (log s) + 1 \<longrightarrow>
             truthy (currentSequenceModel s') \<and> lastPromptId s' = p" by simp_all
        with False show ?thesis by auto
      qed
    next
      case once
      from once(2) pinned have np: "\<not> (lastPromptId s = p \<and> truthy (currentSequenceModel s))"
        by auto
      from ih once(3,4) have "routerCalls (log s') = routerCalls (log s1)"
        "currentSequenceModel s' = currentSequenceModel s1" "lastPromptId s' = p" by simp_all
      with once np show ?thesis by auto
    qed
  qed
qed

lemma sendMessages_pinned:
  assumes "\<And>k hist r. route (hosts k) hist r \<noteq> []"
    and "lastPromptId s = p" and "truthy (currentSequenceModel s)"
  shows "routerCalls (log (sendMessages hosts s p calls)) = routerCalls (log s)
       \<and> currentSequenceModel (sendMessages hosts s p calls) = currentSequenceModel s
       \<and> loggedOnly (usesModel (currentSequenceModel s)) s (sendMessages hosts s p calls)"
  using assms(2,3)
proof (induction calls arbitrary: s)
  case Nil
  then show ?case by (simp add: loggedOnly_refl)
next
  case (Cons c calls)
  obtain request turns fuel where c: "c = (request, turns, fuel)" by (cases c)
  obtain evs out s1 where
    run: "sendMessageStream fuel hosts s request p turns False = (evs, out, s1)"
    by (cases "sendMessageStream fuel hosts s request p turns False")
  from sendMessageStream_routing [OF assms(1) run] Cons.prems
  have r: "routerCalls (log s1) = routerCalls (log s)"
    "currentSequenceModel s1 = currentSequenceModel s" "lastPromptId s1 = p"
    "loggedOnly (usesModel (currentSequenceModel s)) s s1" by simp_all
  with Cons.prems have "truthy (currentSequenceModel s1)" by simp
  from Cons.IH [OF r(3) this] r c run show ?case
    by (auto intro: loggedOnly_trans)
qed

lemma sendMessages_once:
  assumes "\<And>k hist r. route (hosts k) hist r \<noteq> []"
  shows "routerCalls (log s) \<le> routerCalls (log (sendMessages hosts s p calls))
       \<and> routerCalls (log (sendMessages hosts s p calls)) \<le> routerCalls (log s) + 1"
proof (induction calls arbitrary: s)
  case Nil
  then show ?case by simp
next
  case (Cons c calls)
  obtain request turns fuel where c: "c = (request, turns, fuel)" by (cases c)
  obtain evs out s1 where
    run: "sendMessageStream fuel hosts s request p turns False = (evs, out, s1)"
    by (cases "sendMessageStream fuel hosts s request p turns False")
  note r = sendMessageStream_routing [OF assms run]
  have fin: "sendMessages hosts s p (c # calls) = sendMessages hosts s1 p calls"
    using c run by simp
  show ?case
  proof (cases "routerCalls (log s1) = routerCalls (log s)")
    case True
    with Cons.IH [of s1] fin show ?thesis by simp
  next
    case False
    with r have once: "routerCalls (log s1) = routerCalls (log s) + 1" by linarith
    with r have "truthy (currentSequenceModel s1)" "lastPromptId s1 = p" by simp_all
    from sendMessages_pinned [OF assms this(2,1), where calls = calls] once fin show ?thesis by simp
  qed
qed

text \<open>
  C6 (amended). With a router that never answers with the empty model name: over any run
  of top-level requests with one prompt id, recursive continuations included, the router
  is invoked at most once; if the run starts in that sequence with a model pinned, the
  router is not invoked at all, the pinned model stays, and every model call of the run
  uses it. An invocation with a prompt id other than the last one clears the pinned
  model; either it makes no model call, and then the router is not invoked and no model
  is pinned, or it makes its one model call after exactly one invocation of the router,
  whose answer it pins.
\<close>

theorem sticky_routing:
  assumes "\<forall>k hist r. route (hosts k) hist r \<noteq> []"
  shows "routerCalls (log (sendMessages hosts s p calls)) \<le> routerCalls (log s) + 1
       \<and> (lastPromptId s = p \<and> truthy (currentSequenceModel s) \<longrightarrow>
            routerCalls (log (sendMessages hosts s p calls)) = routerCalls (log s)
            \<and> currentSequenceModel (sendMessages hosts s p calls) = currentSequenceModel s
            \<and> loggedOnly (usesModel (currentSequenceModel s)) s (sendMessages hosts s p calls))
       \<and> (lastPromptId s \<noteq> p
            \<and> sendMessageStreamTurn h s request p turns retry = (evs, ctl, s') \<longrightarrow>
            (modelCalls (log s') = modelCalls (log s)
               \<and> routerCalls (log s') = routerCalls (log s)
               \<and> currentSequenceModel s' = None)
            \<or> (modelCalls (log s') = modelCalls (log s) + 1
               \<and> routerCalls (log s') = routerCalls (log s) + 1
               \<and> (\<exists>hist. currentSequenceModel s' = Some (route h hist request))))"
proof (intro conjI impI)
  from assms have ne: "\<And>k hist r. route (hosts k) hist r \<noteq> []" by simp
  from sendMessages_once [OF ne]
  show "routerCalls (log (sendMessages hosts s p calls)) \<le> routerCalls (log s) + 1" by simp
  assume "lastPromptId s = p \<and> truthy (currentSequenceModel s)"
  then have "lastPromptId s = p" "truthy (currentSequenceModel s)" by simp_all
  from sendMessages_pinned [OF ne this]
  show "routerCalls (log (sendMessages hosts s p calls)) = routerCalls (log s)"
    "currentSequenceModel (sendMessages hosts s p calls) = currentSequenceModel s"
    "loggedOnly (usesModel (currentSequenceModel s)) s (sendMessages hosts s p calls)"
    by simp_all
next
  assume a: "lastPromptId s \<noteq> p
       \<and> sendMessageStreamTurn h s request p turns retry = (evs, ctl, s')"
  then have c: "currentSequenceModel (beginTurn s p) = None" by (simp add: beginTurn_simps)
  from a sendMessageStreamTurn_routing [of h s request p turns retry evs ctl s']
  show "(modelCalls (log s') = modelCalls (log s)
               \<and> routerCalls (log s') = routerCalls (log s)
               \<and> currentSequenceModel s' = None)
            \<or> (modelCalls (log s') = modelCalls (log s) + 1
               \<and> routerCalls (log s') = routerCalls (log s) + 1
               \<and> (\<exists>hist. currentSequenceModel s' = Some (route h hist request)))"
    unfolding c by (auto simp: truthy_def)
qed

lemmas run_defs = turn_defs compress_defs split_defs example_defs json_defs

lemma first_request_run:
  "sendMessageStreamTurn quietHost (freshClient smallHistory) [textPart ''hi''] ''p'' 100 False
     = ([Content ''ok'', Finished], Done, afterHi)"
  by (simp add: afterHi_def run_defs Let_def)

lemma second_request_run:
  "sendMessageStreamTurn quietHost afterHi [textPart ''again''] ''p'' 100 False
     = ([Content ''ok'', Finished], Done, afterAgain)"
  by (simp add: afterHi_def afterAgain_def run_defs Let_def)

lemma two_requests_run:
  "sendMessages (\<lambda>k. quietHost) (freshClient smallHistory) ''p'' twoRequests = afterAgain"
  by (simp add: twoRequests_def numeral_3_eq_3 first_request_run second_request_run)

lemma new_sequence_run:
  "sendMessageStreamTurn quietHost pinnedClient [textPart ''new''] ''q'' 100 False
     = ([Content ''ok'', Finished], Done, afterNew)"
  by (simp add: pinnedClient_def afterNew_def run_defs Let_def)

theorem sticky_routing_witness:
  "routerCalls (log (sendMessages (\<lambda>k. quietHost) (freshClient smallHistory) ''p'' twoRequests)) = 1
   \<and> modelCalls (log (sendMessages (\<lambda>k. quietHost) (freshClient smallHistory) ''p'' twoRequests)) = 2
   \<and> routerCalls (log (sendMessages (\<lambda>k. quietHost) pinnedClient ''p'' twoRequests)) = 0
   \<and> currentSequenceModel (sendMessages (\<lambda>k. quietHost) pinnedClient ''p'' twoRequests)
       = Some ''gemini-2.5-pro''
   \<and> routerCalls (log (snd (snd (sendMessageStreamTurn quietHost pinnedClient [textPart ''new'']
         ''q'' 100 False)))) = 1"
proof -
  have ne: "\<forall>k hist r. route ((\<lambda>k. quietHost) k) hist r \<noteq> []" by (simp add: quietHost_def)
  have pin: "lastPromptId pinnedClient = ''p'' \<and> truthy (currentSequenceModel pinnedClient)"
    by (simp add: pinnedClient_def truthy_def)
  have new: "lastPromptId pinnedClient \<noteq> ''q''" by (simp add: pinnedClient_def)
  have r0: "routerCalls (log pinnedClient) = 0" "currentSequenceModel pinnedClient
      = Some ''gemini-2.5-pro''" "modelCalls (log pinnedClient) = 0"
    by (simp_all add: pinnedClient_def freshClient_def routerCalls_def modelCalls_def)
  from sticky_routing [OF ne, where s = pinnedClient and p = "''p''" and calls = twoRequests,
      THEN conjunct2, THEN conjunct1] pin r0
  have a: "routerCalls (log (sendMessages (\<lambda>k. quietHost) pinnedClient ''p'' twoRequests)) = 0"
    "currentSequenceModel (sendMessages (\<lambda>k. quietHost) pinnedClient ''p'' twoRequests)
       = Some ''gemini-2.5-pro''" by simp_all
  have n0: "currentSequenceModel afterNew \<noteq> None" "routerCalls (log pinnedClient) = 0"
    by (simp_all add: afterNew_def pinnedClient_def freshClient_def routerCalls_def)
  from sticky_routing [OF ne, where s = pinnedClient and p = "''q''" and h = quietHost
      and request = "[textPart ''new'']" and turns = 100 and retry = False
      and evs = "[Content ''ok'', Finished]" and ctl = Done and s' = afterNew,
      THEN conjunct2, THEN conjunct2] new new_sequence_run n0
  have "routerCalls (log afterNew) = 1" by simp
  then have b: "routerCalls (log (snd (snd (sendMessageStreamTurn quietHost pinnedClient
      [textPart ''new''] ''q'' 100 False)))) = 1"
    by (simp add: new_sequence_run)
  from sticky_routing [OF ne, where s = "freshClient smallHistory" and p = "''p''"
      and calls = twoRequests, THEN conjunct1]
  have c: "routerCalls (log (sendMessages (\<lambda>k. quietHost) (freshClient smallHistory) ''p''
      twoRequests)) \<le> 1" by (simp add: freshClient_def routerCalls_def)
  have d: "routerCalls (log afterAgain) = 1" "modelCalls (log afterAgain) = 2"
    by (simp_all add: afterAgain_def routerCalls_def modelCalls_def)
  from a b c d show ?thesis by (simp add: two_requests_run)
qed

text \<open>
  The claim as stated has every invocation with a new prompt id invoke the router, and
  the router invoked at most once in a sequence. An invocation that starts a new
  sequence beyond the session turn cap ends with MaxSessionTurns before the router is
  reached; and a router answer that is the empty string fails the test
  \<^verbatim>\<open>if (this.currentSequenceModel)\<close>, so the second request of the sequence asks the
  router again.
\<close>

lemma capped_run:
  "sendMessageStreamTurn cappedHost pinnedClient [textPart ''new''] ''q'' 100 False
       = ([MaxSessionTurns], Done,
          pinnedClient\<lparr>sessionTurnCount := 2, lastPromptId := ''q'', currentSequenceModel := None,
            log := [LoopDetectorReset ''q'']\<rparr>)"
  by (simp add: pinnedClient_def cappedHost_def run_defs Let_def)

lemma blank_first_run:
  "sendMessageStreamTurn blankHost (freshClient smallHistory) [textPart ''hi''] ''p'' 100 False
     = ([Content ''ok'', Finished], Done, blankAfterHi)"
  by (simp add: blankHost_def blankAfterHi_def run_defs Let_def)

lemma blank_second_run:
  "sendMessageStreamTurn blankHost blankAfterHi [textPart ''again''] ''p'' 100 False
     = ([Content ''ok'', Finished], Done, blankAfterAgain)"
  by (simp add: blankHost_def blankAfterHi_def blankAfterAgain_def run_defs Let_def)

theorem sticky_routing_counterexamples:
  "lastPromptId pinnedClient = ''p''
   \<and> currentSequenceModel pinnedClient = Some ''gemini-2.5-pro''
   \<and> sendMessageStreamTurn cappedHost pinnedClient [textPart ''new''] ''q'' 100 False
       = ([MaxSessionTurns], Done,
          pinnedClient\<lparr>sessionTurnCount := 2, lastPromptId := ''q'', currentSequenceModel := None,
            log := [LoopDetectorReset ''q'']\<rparr>)
   \<and> sendMessages (\<lambda>k. blankHost) (freshClient smallHistory) ''p'' twoRequests = blankAfterAgain
   \<and> routerCalls (log blankAfterAgain) = 2"
proof -
  have "sendMessages (\<lambda>k. blankHost) (freshClient smallHistory) ''p'' twoRequests
          = blankAfterAgain"
    by (simp add: twoRequests_def numeral_3_eq_3 blank_first_run blank_second_run)
  moreover have "routerCalls (log blankAfterAgain) = 2"
    by (simp add: blankAfterAgain_def routerCalls_def)
  moreover have "lastPromptId pinnedClient = ''p''"
    "currentSequenceModel pinnedClient = Some ''gemini-2.5-pro''"
    by (simp_all add: pinnedClient_def)
  ultimately show ?thesis using capped_run by simp
qed

section \<open>The turn bound\<close>

lemma continuation_continue:
  "continuation h s p m request hist b = (Continue r t x, s') \<Longrightarrow> t = b - 1"
  by (auto simp: continuation_def Let_def split: if_splits option.splits)

lemma runTurn_continue:
  assumes "runTurn h s ch request p b retry m emitted = (evs, ctl, s')"
    and "ctl = Continue r t x"
  shows "t = b - 1"
  using assms
  by (auto simp: runTurn_def Let_def split: prod.splits stream_exit.splits
           dest: continuation_continue)

lemma sendMessageStreamTurn_modelCalls:
  assumes "sendMessageStreamTurn h s request p turns retry = (evs, ctl, s')"
  shows "(modelCalls (log s') = modelCalls (log s) \<and> (ctl = Done \<or> (\<exists>e. ctl = Raise e)))
       \<or> (modelCalls (log s') = modelCalls (log s) + 1 \<and> min turns MAX_TURNS \<noteq> 0
           \<and> (\<forall>r t x. ctl = Continue r t x \<longrightarrow> t = min turns MAX_TURNS - 1))"
  using assms
proof (cases rule: sendMessageStreamTurn_cases)
  case maxTurns
  from returnTurn_result [OF maxTurns(3)] show ?thesis by (auto simp: beginTurn_counts)
next
  case zero
  from returnTurn_result [OF zero(3)] show ?thesis by (auto simp: beginTurn_counts)
next
  case overflow
  from returnTurn_result [OF overflow(4)] show ?thesis by (auto simp: beginTurn_counts)
next
  case (thrown e)
  from tryCompressChat_counts(1) [OF thrown(4)] thrown(6) show ?thesis
    by (simp add: beginTurn_counts)
next
  case (proceed compressed s3)
  have calls: "modelCalls (log s3) = modelCalls (log s)"
    using tryCompressChat_counts(1) [OF proceed(4)] by (simp add: beginTurn_counts)
  from proceed(5) show ?thesis
  proof (cases rule: prepareAndRun_cases)
    case stopped
    from addHistory_counts(1) [OF stopped(2)] stopped(1) calls show ?thesis by auto
  next
    case (ran s1 ch s2 ch2 m s4)
    have "modelCalls (log s') = modelCalls (log s3) + 1"
      using prepareAndRun_modelCalls [OF proceed(5)] runTurn_counts(1) [OF ran(7)]
        selectModel_counts(1) [OF ran(6)]
      proof -
        from refreshSystemInstruction_frame [OF ran(1)] have "log s1 = log s3" by simp
        moreover have "loggedOnly isAddHistory s1 s2"
          unfolding ran(3) using injectIdeContext_frame [of h s1 ch] by simp
        note addHistory_counts(1) [OF this]
        moreover note selectModel_counts(1) [OF ran(6)] runTurn_counts(1) [OF ran(7)]
        ultimately show ?thesis by simp
      qed
    moreover from runTurn_continue [OF ran(7)]
    have "\<forall>r t x. ctl = Continue r t x \<longrightarrow> t = min turns MAX_TURNS - 1" by blast
    ultimately show ?thesis using calls proceed(2) by simp
  qed
qed

text \<open>
  With a turn budget that is not negative the recursion ends: one unit of fuel more than
  the bounded turns is enough whatever the hosts answer, the call returns or throws, and
  it makes at most as many model calls as the bounded turns, so none when they are zero
  and never more than 100.
\<close>

lemma sendMessageStream_bounded:
  assumes "0 \<le> turns"
  shows "\<exists>evs out s'.
           sendMessageStream (Suc (nat (min turns MAX_TURNS))) hosts s request p turns retry
             = (evs, out, s')
         \<and> (out = Returned \<or> (\<exists>e. out = Threw e))
         \<and> modelCalls (log s') \<le> modelCalls (log s) + nat (min turns MAX_TURNS)"
  using assms
proof (induction "nat (min turns MAX_TURNS)" arbitrary: turns s request retry)
  case 0
  then have z: "min turns MAX_TURNS = 0" by (simp add: MAX_TURNS_def)
  obtain evs ctl s' where
    t: "sendMessageStreamTurn (hosts (sessionTurnCount s)) s request p turns retry
          = (evs, ctl, s')"
    by (cases "sendMessageStreamTurn (hosts (sessionTurnCount s)) s request p turns retry")
  from sendMessageStreamTurn_modelCalls [OF t] z
  have "modelCalls (log s') = modelCalls (log s)" "ctl = Done \<or> (\<exists>e. ctl = Raise e)"
    by auto
  with t z show ?case by auto
next
  case (Suc n)
  then have b: "min turns MAX_TURNS = int (Suc n)" by linarith
  obtain evs ctl s' where
    t: "sendMessageStreamTurn (hosts (sessionTurnCount s)) s request p turns retry
          = (evs, ctl, s')"
    by (cases "sendMessageStreamTurn (hosts (sessionTurnCount s)) s request p turns retry")
  note m = sendMessageStreamTurn_modelCalls [OF t]
  show ?case
  proof (cases ctl)
    case Done
    with t m b show ?thesis by auto
  next
    case (Raise e)
    with t m b show ?thesis by auto
  next
    case (Continue r t' x)
    with m b have t': "t' = int n" and c: "modelCalls (log s') = modelCalls (log s) + 1"
      by auto
    then have n: "n = nat (min t' MAX_TURNS)" "0 \<le> t'" "min t' MAX_TURNS = int n"
      using b by (auto simp: MAX_TURNS_def)
    from Suc.hyps(1) [OF n(1,2), of s' r x] obtain evs1 out s2 where
      rec: "sendMessageStream (Suc n) hosts s' r p t' x = (evs1, out, s2)"
        "out = Returned \<or> (\<exists>e. out = Threw e)"
        "modelCalls (log s2) \<le> modelCalls (log s') + n"
      using n(3) by auto
    have "sendMessageStream (Suc (Suc n)) hosts s request p turns retry
            = (evs @ evs1, out, s2)"
      by (subst sendMessageStream.simps(2))
         (simp only: t Continue rec(1) prod.case control.case)
    moreover from b have "nat (min turns MAX_TURNS) = Suc n" by simp
    moreover from rec(3) c have "modelCalls (log s2) \<le> modelCalls (log s) + Suc n" by simp
    ultimately show ?thesis using rec(2) by simp
  qed
qed

lemma chatty_compress:
  assumes "chat s = Some ch" and "lastPromptTokenCount s = 0"
  shows "\<exists>info. tryCompressChat chattyHost s p False = (Inr info, s)
           \<and> compressionStatus info = NOOP"
  using assms
  by (simp add: tryCompressChat_def chattyHost_def quietHost_def Let_def noopInfo_def
        COMPRESSION_TOKEN_THRESHOLD_def)

lemma chatty_prepare:
  assumes "chat s = Some ch"
  shows "\<exists>evs s'. prepareAndRun chattyHost s request p b retry [] =
           (evs, Continue [textPart ''Please continue.''] (b - 1) False, s')
         \<and> chat s' \<noteq> None \<and> lastPromptTokenCount s' = lastPromptTokenCount s
         \<and> modelCalls (log s') = modelCalls (log s) + 1"
  using assms
  by (auto simp: prepareAndRun_def refreshSystemInstruction_def injectIdeContext_def
        selectModel_def runTurn_def continuation_def chattyHost_def quietHost_def Let_def
        record_action_def modelCalls_def)

lemma chatty_turn:
  assumes "chat s = Some ch" and "lastPromptTokenCount s = 0" and "turns < 0"
    and "requestLength chattyHost request div 4 \<le> 950000"
  shows "\<exists>evs s'. sendMessageStreamTurn chattyHost s request p turns retry =
           (evs, Continue [textPart ''Please continue.''] (turns - 1) False, s')
         \<and> chat s' \<noteq> None \<and> lastPromptTokenCount s' = 0
         \<and> modelCalls (log s') = modelCalls (log s) + 1"
proof -
  let ?s2 = "beginTurn s p"
  have c2: "chat ?s2 = Some ch" "lastPromptTokenCount ?s2 = 0"
    using assms by (simp_all add: beginTurn_simps)
  from chatty_compress [OF c2] obtain info where
    tc: "tryCompressChat chattyHost ?s2 p False = (Inr info, ?s2)"
      "compressionStatus info = NOOP" by blast
  from chatty_prepare [OF c2(1)] obtain evs s' where
    pr: "prepareAndRun chattyHost ?s2 request p turns retry [] =
           (evs, Continue [textPart ''Please continue.''] (turns - 1) False, s')"
      "chat s' \<noteq> None" "lastPromptTokenCount s' = lastPromptTokenCount ?s2"
      "modelCalls (log s') = modelCalls (log ?s2) + 1" by blast
  have cap: "\<not> (0 < getMaxSessionTurns chattyHost
               \<and> getMaxSessionTurns chattyHost < int (sessionTurnCount s) + 1)"
    by (simp add: chattyHost_def quietHost_def)
  have mn: "min turns MAX_TURNS = turns" using assms(3) by (simp add: MAX_TURNS_def)
  have nz: "min turns MAX_TURNS \<noteq> 0" "turns \<noteq> 0" using assms(3) mn by simp_all
  have lim: "tokenLimit chattyHost (getEffectiveModelForCurrentTurn chattyHost ?s2) = 1000000"
    by (simp add: chattyHost_def quietHost_def)
  have nov: "\<not> overflows chattyHost ?s2 request"
    using assms(4) by (simp add: overflows_def lim c2(2))
  have "sendMessageStreamTurn chattyHost s request p turns retry =
          (evs, Continue [textPart ''Please continue.''] (turns - 1) False, s')"
    unfolding sendMessageStreamTurn_unfold
    by (simp only: cap nz nov if_False tc prod.case sum.case pr(1) mn
          compressionStatus.distinct if_False simp_thms)
  with pr c2 show ?thesis by (simp add: beginTurn_counts)
qed

lemma chatty_request:
  "requestLength chattyHost [textPart ''Please continue.''] div 4 \<le> 950000"
  "requestLength chattyHost [textPart ''hi''] div 4 \<le> 950000"
  by (simp_all add: chattyHost_def quietHost_def json_defs textPart_def)

lemma chatty_pending:
  assumes "chat s = Some ch" and "lastPromptTokenCount s = 0" and "turns < 0"
    and "requestLength chattyHost request div 4 \<le> 950000"
  shows "\<exists>evs r t x s'.
           sendMessageStream n (\<lambda>k. chattyHost) s request p turns retry
             = (evs, Pending r t x, s')
         \<and> modelCalls (log s') = modelCalls (log s) + n"
  using assms
proof (induction n arbitrary: s ch request turns retry)
  case 0
  then show ?case by simp
next
  case (Suc n)
  from chatty_turn [OF Suc.prems] obtain evs s1 where
    t: "sendMessageStreamTurn chattyHost s request p turns retry =
          (evs, Continue [textPart ''Please continue.''] (turns - 1) False, s1)"
    and s1: "chat s1 \<noteq> None" "lastPromptTokenCount s1 = 0"
      "modelCalls (log s1) = modelCalls (log s) + 1" by blast
  from s1(1) obtain ch1 where ch1: "chat s1 = Some ch1" by auto
  from Suc.prems(3) have neg: "turns - 1 < 0" by simp
  from Suc.IH [OF ch1 s1(2) neg chatty_request(1), of False] obtain evs1 r t' x s2 where
    rec: "sendMessageStream n (\<lambda>k. chattyHost) s1 [textPart ''Please continue.''] p
            (turns - 1) False = (evs1, Pending r t' x, s2)"
      "modelCalls (log s2) = modelCalls (log s1) + n" by blast
  have "sendMessageStream (Suc n) (\<lambda>k. chattyHost) s request p turns retry
          = (evs @ evs1, Pending r t' x, s2)"
    by (subst sendMessageStream.simps(2)) (simp only: t rec(1) prod.case control.case)
  with rec(2) s1(3) show ?case by simp
qed

text \<open>
  C4. The clamp is \<^verbatim>\<open>Math.min(turns, MAX_TURNS)\<close> and the stop is
  \<^verbatim>\<open>if (!boundedTurns)\<close>: a negative budget is neither raised to zero nor stopped, and
  each continuation passes on one less. On a host whose next-speaker check keeps
  answering for the model, the call with \<open>turns = - 1\<close> is still pending after any
  number \<open>n\<close> of invocations and has made \<open>n\<close> model calls, more than the ceiling of 100
  from \<open>n = 101\<close> on.
\<close>

theorem negative_turns_never_return:
  "\<forall>n. \<exists>evs r t x s'.
      sendMessageStream n (\<lambda>k. chattyHost) (freshClient smallHistory) [textPart ''hi''] ''p''
        (- 1) False = (evs, Pending r t x, s')
      \<and> modelCalls (log s') = n"
proof
  fix n
  have c: "chat (freshClient smallHistory)
             = Some \<lparr>history = smallHistory, systemInstruction = ''system''\<rparr>"
    "lastPromptTokenCount (freshClient smallHistory) = 0"
    "modelCalls (log (freshClient smallHistory)) = 0"
    by (simp_all add: freshClient_def modelCalls_def)
  have "(- 1 :: int) < 0" by simp
  from chatty_pending [OF c(1,2) this chatty_request(2), of n "''p''" False] c(3)
  show "\<exists>evs r t x s'.
      sendMessageStream n (\<lambda>k. chattyHost) (freshClient smallHistory) [textPart ''hi''] ''p''
        (- 1) False = (evs, Pending r t x, s')
      \<and> modelCalls (log s') = n" by simp
qed

end
